theory Spec2Isabelle
  imports Main
begin

section \<open>JavaScript values\<close>

text \<open>
  The values the module tests for truthiness or with \<open>typeof\<close>: property reads that can be
  \<open>undefined\<close>, \<open>getAttribute\<close> results (\<open>null\<close> or a string), and objects.
\<close>

datatype jsval = JUndefined | JNull | JString string | JObject

fun truthy :: "jsval \<Rightarrow> bool" where
  "truthy JUndefined = False"
| "truthy JNull = False"
| "truthy (JString s) = (s \<noteq> [])"
| "truthy JObject = True"

fun typeof :: "jsval \<Rightarrow> string" where
  "typeof JUndefined = ''undefined''"
| "typeof JNull = ''object''"
| "typeof (JString s) = ''string''"
| "typeof JObject = ''object''"

fun toString :: "jsval \<Rightarrow> string" where
  "toString JUndefined = ''undefined''"
| "toString JNull = ''null''"
| "toString (JString s) = s"
| "toString JObject = ''[object Object]''"

text \<open>The operator \<open>a || b\<close>: the left operand when it is truthy, else the right one.\<close>

definition js_or :: "jsval \<Rightarrow> jsval \<Rightarrow> jsval" where
  "js_or a b = (if truthy a then a else b)"

datatype jsError = FetchError | TypeError | SyntaxError | InvalidCharacterError

section \<open>DOM nodes\<close>

text \<open>
  An element is an SVG element (it has \<open>getBBox\<close> and \<open>style\<close>, and its \<open>className\<close> is an
  object), an HTML element (it has \<open>style\<close>, and its \<open>className\<close> is a string), or a
  plain element, as the parser makes from markup outside the SVG namespace (it has
  neither \<open>getBBox\<close> nor \<open>style\<close>).
\<close>

datatype elementKind = SVGElement | HTMLElement | PlainElement

text \<open>
  A node of the store. \<open>parentNode\<close> and \<open>childNodes\<close> are the tree links, \<open>innerHTML\<close> the
  text of a style element, \<open>displayStyle\<close> the value of \<open>style.display\<close>, and \<open>srcProperty\<close>
  what the \<open>src\<close> property of the object reads: for an image the resolved URL of its
  \<open>src\<close> attribute (the empty string without one), \<open>undefined\<close> for an element that
  has no such property.
\<close>

record node =
  attributes :: "string \<rightharpoonup> string"
  parentNode :: "nat option"
  childNodes :: "nat list"
  innerHTML :: string
  displayStyle :: string
  kind :: elementKind
  srcProperty :: jsval

definition getAttribute :: "node \<Rightarrow> string \<Rightarrow> jsval" where
  "getAttribute n k = (case attributes n k of None \<Rightarrow> JNull | Some v \<Rightarrow> JString v)"

definition setAttribute :: "string \<Rightarrow> string \<Rightarrow> node \<Rightarrow> node" where
  "setAttribute k v n = n\<lparr>attributes := (attributes n)(k \<mapsto> v)\<rparr>"

definition removeAttribute :: "string \<Rightarrow> node \<Rightarrow> node" where
  "removeAttribute k n = n\<lparr>attributes := (attributes n)(k := None)\<rparr>"

text \<open>The reflecting properties: a missing attribute reads as the empty string.\<close>

definition reflected :: "node \<Rightarrow> string \<Rightarrow> string" where
  "reflected n k = (case attributes n k of None \<Rightarrow> [] | Some v \<Rightarrow> v)"

definition idProp :: "node \<Rightarrow> jsval" where
  "idProp n = JString (reflected n ''id'')"

definition className :: "node \<Rightarrow> jsval" where
  "className n = (if kind n = SVGElement then JObject else JString (reflected n ''class''))"

text \<open>\<open>dataset.svgSrc\<close> is \<open>undefined\<close> unless the attribute \<open>data-svg-src\<close> is present.\<close>

definition dataset_svgSrc :: "node \<Rightarrow> jsval" where
  "dataset_svgSrc n =
     (case attributes n ''data-svg-src'' of None \<Rightarrow> JUndefined | Some v \<Rightarrow> JString v)"

section \<open>Class token lists\<close>

definition isSpace :: "char \<Rightarrow> bool" where
  "isSpace c = (c = CHR 0x09 \<or> c = CHR 0x0A \<or> c = CHR 0x0C \<or> c = CHR 0x0D \<or> c = CHR '' '')"

text \<open>Splitting at every whitespace character; the fields between may be empty.\<close>

fun splitFields :: "string \<Rightarrow> string list" where
  "splitFields [] = [[]]"
| "splitFields (c # cs) =
     (if isSpace c then [] # splitFields cs
      else (case splitFields cs of [] \<Rightarrow> [[c]] | f # fs \<Rightarrow> (c # f) # fs))"

definition splitOnSpace :: "string \<Rightarrow> string list" where
  "splitOnSpace s = filter (\<lambda>f. f \<noteq> []) (splitFields s)"

text \<open>An ordered set keeps the first occurrence of each token.\<close>

definition orderedSet :: "string list \<Rightarrow> string list" where
  "orderedSet ts = rev (remdups (rev ts))"

definition tokenSet :: "string \<Rightarrow> string list" where
  "tokenSet s = orderedSet (splitOnSpace s)"

fun joinSpace :: "string list \<Rightarrow> string" where
  "joinSpace [] = []"
| "joinSpace [t] = t"
| "joinSpace (t # ts) = t @ CHR '' '' # joinSpace ts"

definition classTokens :: "node \<Rightarrow> string list" where
  "classTokens n = tokenSet (reflected n ''class'')"

text \<open>\<open>classList.add(token)\<close> for a valid token: append it unless present, then serialise.\<close>

definition classList_add :: "string \<Rightarrow> node \<Rightarrow> node" where
  "classList_add tok n =
     (let ts = classTokens n;
          ts' = (if tok \<in> set ts then ts else ts @ [tok])
      in setAttribute ''class'' (joinSpace ts') n)"

text \<open>Replacing within an ordered set that contains \<open>old\<close>.\<close>

fun replaceInSet :: "string \<Rightarrow> string \<Rightarrow> string list \<Rightarrow> string list" where
  "replaceInSet old new [] = []"
| "replaceInSet old new (t # ts) =
     (if t = old \<or> t = new then new # filter (\<lambda>u. u \<noteq> old \<and> u \<noteq> new) ts
      else t # replaceInSet old new ts)"

text \<open>
  \<open>classList.replace(old, new)\<close>: an empty token is a SyntaxError, a token with whitespace
  an InvalidCharacterError; without \<open>old\<close> in the set nothing changes.
\<close>

definition classList_replace :: "string \<Rightarrow> string \<Rightarrow> node \<Rightarrow> jsError + node" where
  "classList_replace old new n =
     (if old = [] \<or> new = [] then Inl SyntaxError
      else if (\<exists>c \<in> set old. isSpace c) \<or> (\<exists>c \<in> set new. isSpace c) then Inl InvalidCharacterError
      else if old \<notin> set (classTokens n) then Inr n
      else Inr (setAttribute ''class'' (joinSpace (replaceInSet old new (classTokens n))) n))"

text \<open>A valid token is non-empty and free of whitespace; a canonical list has only valid
  tokens, each once.\<close>

definition cleanToken :: "string \<Rightarrow> bool" where
  "cleanToken t = (t \<noteq> [] \<and> (\<forall>c \<in> set t. \<not> isSpace c))"

definition canonical :: "string list \<Rightarrow> bool" where
  "canonical ts = (distinct ts \<and> (\<forall>t \<in> set ts. cleanToken t))"

section \<open>Attribute optimisation\<close>

definition setViewport :: "node \<Rightarrow> node" where
  "setViewport svg =
     (if \<not> truthy (getAttribute svg ''viewBox'') \<and> truthy (getAttribute svg ''height'')
         \<and> truthy (getAttribute svg ''width'')
      then setAttribute ''viewBox''
             (''0 0 '' @ toString (getAttribute svg ''height'') @ '' ''
                @ toString (getAttribute svg ''width'')) svg
      else svg)"

definition optimizeInlineSVG :: "node \<Rightarrow> node" where
  "optimizeInlineSVG svgInline =
     (let imgID = idProp svgInline;
          imgClass = className svgInline;
          s1 = (if typeof imgID \<noteq> ''undefined''
                then setAttribute ''id'' (toString imgID) svgInline else svgInline);
          s2 = (if typeof imgClass \<noteq> ''undefined''
                then classList_add ''replaced-svg'' s1 else s1);
          s3 = classList_add ''img-fluid'' s2;
          s4 = removeAttribute ''xmlns:a'' s3
      in setViewport s4)"

section \<open>The node store and the browser\<close>

text \<open>
  The store holds every node object, attached to the page or not; the nodes of a parsed
  document are detached nodes of the store. \<open>nodeIds\<close> lists the allocated nodes.
\<close>

record dom =
  nodeIds :: "nat list"
  nodeAt :: "nat \<rightharpoonup> node"

definition onNode :: "nat \<Rightarrow> (node \<Rightarrow> node) \<Rightarrow> dom \<Rightarrow> dom" where
  "onNode i f d =
     (case nodeAt d i of None \<Rightarrow> d | Some n \<Rightarrow> d\<lparr>nodeAt := (nodeAt d)(i \<mapsto> f n)\<rparr>)"

definition parentOf :: "dom \<Rightarrow> nat \<Rightarrow> nat option" where
  "parentOf d i = (case nodeAt d i of None \<Rightarrow> None | Some n \<Rightarrow> parentNode n)"

text \<open>Walking up the parent links, at most as many steps as there are nodes.\<close>

fun ancestorWithin :: "nat \<Rightarrow> dom \<Rightarrow> nat \<Rightarrow> nat \<Rightarrow> bool" where
  "ancestorWithin 0 d r i = False"
| "ancestorWithin (Suc k) d r i =
     (case parentOf d i of None \<Rightarrow> False | Some p \<Rightarrow> p = r \<or> ancestorWithin k d r p)"

definition isDescendant :: "dom \<Rightarrow> nat \<Rightarrow> nat \<Rightarrow> bool" where
  "isDescendant d r i = ancestorWithin (length (nodeIds d)) d r i"

text \<open>
  \<open>root.getElementsByClassName(names)\<close>: the descendants of the root that carry every
  token of \<open>names\<close>; no token at all gives the empty collection.
\<close>

definition getElementsByClassName :: "dom \<Rightarrow> nat \<Rightarrow> string \<Rightarrow> nat list" where
  "getElementsByClassName d root names =
     (let ts = tokenSet names
      in if ts = [] then []
         else filter (\<lambda>i. isDescendant d root i \<and>
                (case nodeAt d i of None \<Rightarrow> False
                 | Some n \<Rightarrow> set ts \<subseteq> set (classTokens n))) (nodeIds d))"

text \<open>
  \<open>parent.replaceChild(new, old)\<close>: the new node leaves its former parent, takes the
  place of the old one among the children of \<open>parent\<close>, and the old node is detached.
\<close>

definition replaceChild :: "nat \<Rightarrow> nat \<Rightarrow> nat \<Rightarrow> dom \<Rightarrow> dom" where
  "replaceChild parent new old d =
     (let d1 = (case parentOf d new of None \<Rightarrow> d
                | Some q \<Rightarrow> onNode q (\<lambda>n. n\<lparr>childNodes := removeAll new (childNodes n)\<rparr>) d);
          d2 = onNode parent
                 (\<lambda>n. n\<lparr>childNodes := map (\<lambda>c. if c = old then new else c) (childNodes n)\<rparr>) d1;
          d3 = onNode old (\<lambda>n. n\<lparr>parentNode := None\<rparr>) d2
      in onNode new (\<lambda>n. n\<lparr>parentNode := Some parent\<rparr>) d3)"

text \<open>
  A CSS rule is a style rule, with its selector text and its declarations (property and
  value, in the order \<open>style[m]\<close> enumerates them), or a rule of another kind, which has
  no \<open>selectorText\<close>.
\<close>

datatype cssRule = CSSStyleRule string "(string \<times> string) list" | CSSOtherRule

record styleSheet =
  ownerNode :: "nat option"
  cssRules :: "cssRule list"

text \<open>
  The coordinates of a bounding box are only ever joined into a string, so the model
  carries each one as the string that conversion gives.
\<close>

record svgRect =
  rect_x :: string
  rect_y :: string
  rect_width :: string
  rect_height :: string

datatype fetchResult = NetworkFailure | ResponseText string | NeverSettles

text \<open>
  What the browser supplies: the outcome of \<open>fetch(url)\<close> followed by \<open>response.text()\<close>
  (a rejection, the text, or a promise that never settles), the first \<open>svg\<close> element of the document parsed from a text (if any), the clock,
  the bounding box of a node in the current document, and \<open>document.styleSheets\<close> of the
  current document.
\<close>

record env =
  fetch :: "string \<Rightarrow> fetchResult"
  parseFromString :: "string \<Rightarrow> nat option"
  dateNow :: nat
  getBBox :: "dom \<Rightarrow> nat \<Rightarrow> svgRect"
  styleSheets :: "dom \<Rightarrow> styleSheet list"

section \<open>Post-insertion fixups\<close>

definition isDigit :: "char \<Rightarrow> bool" where
  "isDigit c = (c \<in> set ''0123456789'')"

definition digitChar :: "nat \<Rightarrow> char" where
  "digitChar n = ''0123456789'' ! n"

fun decimal :: "nat \<Rightarrow> string" where
  "decimal n = (if n < 10 then [digitChar n] else decimal (n div 10) @ [digitChar (n mod 10)])"

declare decimal.simps [simp del]

text \<open>The class name a rule is rewritten to.\<close>

definition newElementClass :: "string \<Rightarrow> string \<Rightarrow> string" where
  "newElementClass uid oldElementClass = uid @ ''-'' @ oldElementClass"

text \<open>The prefix: \<open>uid-\<close> and the clock value, with leading digits removed.\<close>

definition makeUid :: "nat \<Rightarrow> string" where
  "makeUid now = dropWhile isDigit (''uid-'' @ decimal now)"

text \<open>The loop over the declarations of one rule, appending to the style node's text.\<close>

fun emitDeclarations :: "string \<Rightarrow> (string \<times> string) list \<Rightarrow> string \<Rightarrow> string" where
  "emitDeclarations newClass [] html = html"
| "emitDeclarations newClass ((styleType, styleRule) # rest) html =
     emitDeclarations newClass rest
       (html @ ''.'' @ newClass @ ''{'' @ styleType @ '': '' @ styleRule @ '';}'' @ [CHR 0x0A])"

text \<open>The loop over the elements of the class; a missing element is skipped.\<close>

fun replaceOnElements :: "string \<Rightarrow> string \<Rightarrow> nat list \<Rightarrow> dom \<Rightarrow> jsError option \<times> dom" where
  "replaceOnElements old new [] d = (None, d)"
| "replaceOnElements old new (e # es) d =
     (case nodeAt d e of
        None \<Rightarrow> replaceOnElements old new es d
      | Some n \<Rightarrow>
          (case classList_replace old new n of
             Inl err \<Rightarrow> (Some err, d)
           | Inr n' \<Rightarrow> replaceOnElements old new es (d\<lparr>nodeAt := (nodeAt d)(e \<mapsto> n')\<rparr>)))"

text \<open>The loop over the rules of one sheet of the root.\<close>

fun rewriteRules :: "string \<Rightarrow> nat \<Rightarrow> nat \<Rightarrow> cssRule list \<Rightarrow> dom \<Rightarrow> jsError option \<times> dom" where
  "rewriteRules uid svgInline styleNode [] d = (None, d)"
| "rewriteRules uid svgInline styleNode (CSSOtherRule # rules) d = (Some TypeError, d)"
| "rewriteRules uid svgInline styleNode (CSSStyleRule selectorText decls # rules) d =
     (let oldElementClass = drop 1 selectorText;
          newClass = newElementClass uid oldElementClass;
          elements = getElementsByClassName d svgInline oldElementClass;
          d1 = onNode styleNode (\<lambda>n. n\<lparr>innerHTML := emitDeclarations newClass decls (innerHTML n)\<rparr>) d
      in case replaceOnElements oldElementClass newClass (rev elements) d1 of
           (Some err, d2) \<Rightarrow> (Some err, d2)
         | (None, d2) \<Rightarrow> rewriteRules uid svgInline styleNode rules d2)"

text \<open>The loop over the style sheets of the page.\<close>

fun forEachSheet :: "string \<Rightarrow> nat \<Rightarrow> styleSheet list \<Rightarrow> dom \<Rightarrow> jsError option \<times> dom" where
  "forEachSheet uid svgInline [] d = (None, d)"
| "forEachSheet uid svgInline (thisSheet # sheets) d =
     (case ownerNode thisSheet of
        None \<Rightarrow> (Some TypeError, d)
      | Some styleNode \<Rightarrow>
          if parentOf d styleNode = Some svgInline
          then (let svgStyleRules = cssRules thisSheet;
                    d1 = onNode styleNode (\<lambda>n. n\<lparr>innerHTML := []\<rparr>) d
                in case rewriteRules uid svgInline styleNode svgStyleRules d1 of
                     (Some err, d2) \<Rightarrow> (Some err, d2)
                   | (None, d2) \<Rightarrow> forEachSheet uid svgInline sheets d2)
          else forEachSheet uid svgInline sheets d)"

definition svgPrependClassIdentifiers :: "env \<Rightarrow> nat \<Rightarrow> dom \<Rightarrow> jsError option \<times> dom" where
  "svgPrependClassIdentifiers e svgInline d =
     (let pageStyleSheets = styleSheets e d;
          uid = makeUid (dateNow e)
      in forEachSheet uid svgInline pageStyleSheets d)"

definition bboxString :: "svgRect \<Rightarrow> string" where
  "bboxString bbox = joinSpace [rect_x bbox, rect_y bbox, rect_width bbox, rect_height bbox]"

text \<open>
  \<open>svgInline.getBBox()\<close> exists on an SVG element only; on any other node the call is
  a TypeError and the viewBox is left as it was.
\<close>

definition removeSVGWhiteSpace :: "env \<Rightarrow> nat \<Rightarrow> dom \<Rightarrow> jsError option \<times> dom" where
  "removeSVGWhiteSpace e svgInline d =
     (case nodeAt d svgInline of
        None \<Rightarrow> (Some TypeError, d)
      | Some n \<Rightarrow>
          if kind n = SVGElement
          then (let bbox = getBBox e d svgInline;
                    viewBox = bboxString bbox
                in (None, onNode svgInline (setAttribute ''viewBox'' viewBox) d))
          else (Some TypeError, d))"

text \<open>\<open>svgInline.style\<close> is undefined on a plain element: assigning to it is a TypeError.\<close>

definition safariHack :: "nat \<Rightarrow> dom \<Rightarrow> jsError option \<times> dom" where
  "safariHack svgInline d =
     (case nodeAt d svgInline of
        None \<Rightarrow> (Some TypeError, d)
      | Some n \<Rightarrow>
          if kind n = PlainElement then (Some TypeError, d)
          else (let d1 = onNode svgInline (\<lambda>n. n\<lparr>displayStyle := ''none''\<rparr>) d
                in (None, onNode svgInline (\<lambda>n. n\<lparr>displayStyle := ''flex''\<rparr>) d1)))"

definition processFeaturedMerchantsImages :: "env \<Rightarrow> nat \<Rightarrow> dom \<Rightarrow> jsError option \<times> dom" where
  "processFeaturedMerchantsImages e svgInline d =
     (let d1 = onNode svgInline optimizeInlineSVG d
      in case removeSVGWhiteSpace e svgInline d1 of
           (Some err, d2) \<Rightarrow> (Some err, d2)
         | (None, d2) \<Rightarrow>
             (case svgPrependClassIdentifiers e svgInline d2 of
                (Some err, d3) \<Rightarrow> (Some err, d3)
              | (None, d3) \<Rightarrow> safariHack svgInline d3))"

section \<open>The conversion\<close>

text \<open>
  The result of a conversion is the error its promise chain rejects with, if any, and
  the store it leaves. \<open>insertParsed\<close> is the callback that receives the fetched text;
  it runs without interruption, and the URL is read from attributes no conversion
  writes, so a conversion is one step on the store at the time the text arrives. When
  the fetch never settles no callback runs: nothing is reported and nothing changes.
\<close>

definition insertParsed :: "env \<Rightarrow> nat \<Rightarrow> string \<Rightarrow> dom \<Rightarrow> jsError option \<times> dom" where
  "insertParsed e svgSource text d =
     (case parseFromString e text of
        None \<Rightarrow> (Some TypeError, d)
      | Some svgInline \<Rightarrow>
          (case nodeAt d svgInline of
             None \<Rightarrow> (Some TypeError, d)
           | Some root \<Rightarrow>
               (let d1 = onNode svgInline optimizeInlineSVG d
                in case parentOf d1 svgSource of
                     None \<Rightarrow> (Some TypeError, d1)
                   | Some parent \<Rightarrow>
                       processFeaturedMerchantsImages e svgInline
                         (replaceChild parent svgInline svgSource d1))))"

definition resolveURL :: "node \<Rightarrow> jsval" where
  "resolveURL svgSource = js_or (dataset_svgSrc svgSource) (srcProperty svgSource)"

definition convertSVGtoInline :: "env \<Rightarrow> nat \<Rightarrow> dom \<Rightarrow> jsError option \<times> dom" where
  "convertSVGtoInline e svgSource d =
     (case nodeAt d svgSource of
        None \<Rightarrow> (Some TypeError, d)
      | Some placeholder \<Rightarrow>
          (let imgURL = resolveURL placeholder
           in case fetch e (toString imgURL) of
                NetworkFailure \<Rightarrow> (Some FetchError, d)
              | ResponseText text \<Rightarrow> insertParsed e svgSource text d
              | NeverSettles \<Rightarrow> (None, d)))"

text \<open>
  The three fixups that follow the attribute optimisation in
  \<open>processFeaturedMerchantsImages\<close>, in the order of the code: trimming the bounds,
  namespacing the styles, forcing the repaint.
\<close>

definition postInsertionFixups :: "env \<Rightarrow> nat \<Rightarrow> dom \<Rightarrow> jsError option \<times> dom" where
  "postInsertionFixups e svgInline d =
     (case removeSVGWhiteSpace e svgInline d of
        (Some err, d2) \<Rightarrow> (Some err, d2)
      | (None, d2) \<Rightarrow>
          (case svgPrependClassIdentifiers e svgInline d2 of
             (Some err, d3) \<Rightarrow> (Some err, d3)
           | (None, d3) \<Rightarrow> safariHack svgInline d3))"

text \<open>Reading an attribute of a node of the store.\<close>

definition attributeAt :: "dom \<Rightarrow> nat \<Rightarrow> string \<Rightarrow> string option" where
  "attributeAt d i k = (case nodeAt d i of None \<Rightarrow> None | Some n \<Rightarrow> attributes n k)"

section \<open>The effect of namespacing on class tokens\<close>

text \<open>Reading a decimal string back.\<close>

definition digitValue :: "char \<Rightarrow> nat" where
  "digitValue c = length (takeWhile (\<lambda>d. d \<noteq> c) ''0123456789'')"

definition fromDecimal :: "string \<Rightarrow> nat" where
  "fromDecimal s = foldl (\<lambda>a c. 10 * a + digitValue c) 0 s"

text \<open>
  What \<open>classList.replace\<close> does to a token list and to a node when both tokens are
  valid, and the renaming of a whole run: one replacement for each class, in order.
\<close>

definition renameTokens :: "string \<Rightarrow> string \<Rightarrow> string list \<Rightarrow> string list" where
  "renameTokens old new ts = (if old \<in> set ts then replaceInSet old new ts else ts)"

definition renameNode :: "string \<Rightarrow> string \<Rightarrow> node \<Rightarrow> node" where
  "renameNode old new n =
     (if old \<in> set (classTokens n)
      then setAttribute ''class'' (joinSpace (replaceInSet old new (classTokens n))) n else n)"

definition namespacedTokens :: "string \<Rightarrow> string list \<Rightarrow> string list \<Rightarrow> string list" where
  "namespacedTokens uid olds ts = fold (\<lambda>old. renameTokens old (newElementClass uid old)) olds ts"

text \<open>
  The elements \<open>getElementsByClassName\<close> can find under a root, the class tokens of a
  node of the store, and the classes the rules of the root's own sheets select: the
  selector texts without their first character, for the sheets whose owner node is a
  child of the root.
\<close>

definition elementOf :: "dom \<Rightarrow> nat \<Rightarrow> nat \<Rightarrow> bool" where
  "elementOf d r i = (i \<in> set (nodeIds d) \<and> isDescendant d r i)"

definition tokensAt :: "dom \<Rightarrow> nat \<Rightarrow> string list option" where
  "tokensAt d i = map_option classTokens (nodeAt d i)"

fun ruleClasses :: "cssRule list \<Rightarrow> string list" where
  "ruleClasses [] = []"
| "ruleClasses (CSSOtherRule # rules) = ruleClasses rules"
| "ruleClasses (CSSStyleRule selectorText decls # rules) = drop 1 selectorText # ruleClasses rules"

fun sheetClasses :: "dom \<Rightarrow> nat \<Rightarrow> styleSheet list \<Rightarrow> string list" where
  "sheetClasses d r [] = []"
| "sheetClasses d r (sheet # sheets) =
     (case ownerNode sheet of
        None \<Rightarrow> sheetClasses d r sheets
      | Some styleNode \<Rightarrow>
          if parentOf d styleNode = Some r
          then ruleClasses (cssRules sheet) @ sheetClasses d r sheets
          else sheetClasses d r sheets)"

definition ownClasses :: "env \<Rightarrow> nat \<Rightarrow> dom \<Rightarrow> string list" where
  "ownClasses e r d = sheetClasses d r (styleSheets e d)"

section \<open>An example page\<close>

text \<open>
  A page with a body (node 0) holding one image placeholder (node 1) and a style element
  of the page (node 5) that hides the elements of class \<open>a\<close>, and the parsed graphic:
  its root (node 2) with a style element (node 3) and a rectangle of class \<open>a\<close> (node 4).
  The browser fetches \<open>a.svg\<close>, whose text it parses to node 2, and for the empty URL
  the page itself, which has no \<open>svg\<close> element; it reads the clock at 5, lists the sheet
  of node 5 and, once the root is in the page, the sheet of node 3; it gives the root an
  empty box while the rectangle is hidden by the page's rule.
\<close>

definition htmlElement :: "(string \<times> string) list \<Rightarrow> nat option \<Rightarrow> nat list \<Rightarrow> string \<Rightarrow> node" where
  "htmlElement as p cs html = \<lparr>attributes = map_of as, parentNode = p, childNodes = cs,
      innerHTML = html, displayStyle = [], kind = HTMLElement, srcProperty = JUndefined\<rparr>"

definition svgElement :: "(string \<times> string) list \<Rightarrow> nat option \<Rightarrow> nat list \<Rightarrow> string \<Rightarrow> node" where
  "svgElement as p cs html = \<lparr>attributes = map_of as, parentNode = p, childNodes = cs,
      innerHTML = html, displayStyle = [], kind = SVGElement, srcProperty = JUndefined\<rparr>"

text \<open>An image with its attributes, the value of its \<open>src\<close> property and its parent.\<close>

definition imgElement :: "(string \<times> string) list \<Rightarrow> string \<Rightarrow> nat option \<Rightarrow> node" where
  "imgElement as src p = \<lparr>attributes = map_of as, parentNode = p, childNodes = [],
      innerHTML = [], displayStyle = [], kind = HTMLElement, srcProperty = JString src\<rparr>"

definition examplePlaceholder :: node where
  "examplePlaceholder = imgElement [(''id'', ''logo''), (''data-svg-src'', ''a.svg'')] [] (Some 0)"

definition exampleRoot :: node where
  "exampleRoot = svgElement [(''height'', ''100''), (''width'', ''50'')] None [3, 4] []"

definition exampleBody :: node where
  "exampleBody = htmlElement [] None [1, 5] []"

definition examplePage :: dom where
  "examplePage = \<lparr>nodeIds = [0, 1, 2, 3, 4, 5],
     nodeAt = [0 \<mapsto> exampleBody,
               1 \<mapsto> examplePlaceholder,
               2 \<mapsto> exampleRoot,
               3 \<mapsto> svgElement [] (Some 2) [] ''.a{fill:red}'',
               4 \<mapsto> svgElement [(''class'', ''a'')] (Some 2) [] [],
               5 \<mapsto> htmlElement [] (Some 0) [] ''.a{display:none}'']\<rparr>"

definition exampleBBox :: "dom \<Rightarrow> nat \<Rightarrow> svgRect" where
  "exampleBBox d i =
     (if ''a'' \<in> set (case nodeAt d 4 of None \<Rightarrow> [] | Some n \<Rightarrow> classTokens n)
      then \<lparr>rect_x = ''0'', rect_y = ''0'', rect_width = ''0'', rect_height = ''0''\<rparr>
      else \<lparr>rect_x = ''1'', rect_y = ''2'', rect_width = ''30'', rect_height = ''40''\<rparr>)"

text \<open>
  The sheet the browser derives from a style element of a graphic: one rule, whose
  selector is the text before the brace and whose declaration is the fill colour.
\<close>

definition exampleSheet :: "dom \<Rightarrow> nat \<Rightarrow> string \<Rightarrow> styleSheet" where
  "exampleSheet d styleNode colour =
     \<lparr>ownerNode = Some styleNode,
      cssRules = [CSSStyleRule
        (takeWhile (\<lambda>c. c \<noteq> CHR ''{'')
           (case nodeAt d styleNode of None \<Rightarrow> [] | Some n \<Rightarrow> innerHTML n))
        [(''fill'', colour)]]\<rparr>"

definition exampleSheets :: "dom \<Rightarrow> styleSheet list" where
  "exampleSheets d =
     \<lparr>ownerNode = Some 5, cssRules = [CSSStyleRule ''.a'' [(''display'', ''none'')]]\<rparr>
     # (if parentOf d 2 = Some 0 then [exampleSheet d 3 ''red''] else [])"

definition exampleBrowser :: env where
  "exampleBrowser = \<lparr>
     fetch = (\<lambda>u. if u = ''a.svg'' then ResponseText ''<svg/>''
                else if u = [] then ResponseText ''<html/>'' else NetworkFailure),
     parseFromString = (\<lambda>t. if t = ''<svg/>'' then Some 2 else None),
     dateNow = 5,
     getBBox = exampleBBox,
     styleSheets = exampleSheets\<rparr>"

definition offlineBrowser :: env where
  "offlineBrowser = exampleBrowser\<lparr>fetch := (\<lambda>u. NetworkFailure)\<rparr>"




text \<open>
  A page with a second placeholder (node 6) whose \<open>src\<close> attribute \<open>b.svg\<close> resolves to
  \<open>https://example.org/b.svg\<close>, and whose parsed graphic is the root
  (node 7) with a style element (node 8) and a circle of class \<open>a\<close> (node 9): both
  graphics define the class \<open>a\<close>. The browser is given the clock value it reads.
\<close>

definition twoGraphicsPage :: dom where
  "twoGraphicsPage = \<lparr>nodeIds = [0, 1, 2, 3, 4, 5, 6, 7, 8, 9],
     nodeAt = (nodeAt examplePage)
       (0 \<mapsto> htmlElement [] None [1, 5, 6] [],
        6 \<mapsto> imgElement [(''src'', ''b.svg'')] ''https://example.org/b.svg'' (Some 0),
        7 \<mapsto> svgElement [(''viewBox'', ''0 0 8 8'')] None [8, 9] [],
        8 \<mapsto> svgElement [] (Some 7) [] ''.a{fill:blue}'',
        9 \<mapsto> svgElement [(''class'', ''a'')] (Some 7) [] [])\<rparr>"

definition twoGraphicsBrowser :: "nat \<Rightarrow> env" where
  "twoGraphicsBrowser now = \<lparr>
     fetch = (\<lambda>u. if u = ''a.svg'' then ResponseText ''<svg/>''
                else if u = ''https://example.org/b.svg'' then ResponseText ''<svg viewBox/>''
                else NetworkFailure),
     parseFromString = (\<lambda>t. if t = ''<svg/>'' then Some 2
                else if t = ''<svg viewBox/>'' then Some 7 else None),
     dateNow = now,
     getBBox = exampleBBox,
     styleSheets = (\<lambda>d. exampleSheets d
        @ (if parentOf d 7 = Some 0 then [exampleSheet d 8 ''blue''] else []))\<rparr>"




definition orphanPlaceholder :: node where
  "orphanPlaceholder = examplePlaceholder\<lparr>parentNode := None\<rparr>"

definition orphanPage :: dom where
  "orphanPage = examplePage\<lparr>nodeAt := (nodeAt examplePage)(1 \<mapsto> orphanPlaceholder)\<rparr>"



section \<open>Synthesising the viewBox\<close>

lemma truthy_getAttribute: "truthy (getAttribute n k) = (reflected n k \<noteq> [])"
  by (simp add: getAttribute_def reflected_def split: option.splits)

lemma toString_getAttribute:
  "reflected n k \<noteq> [] \<Longrightarrow> toString (getAttribute n k) = reflected n k"
  by (auto simp add: getAttribute_def reflected_def split: option.splits)

text \<open>
  C7, as the code has it. \<open>setViewport\<close> tests its three attributes for truthiness, so an
  attribute that is present but empty counts as missing: when the root's viewBox is
  absent or empty and its height and width are both present and non-empty, the viewBox
  becomes \<open>0 0 <height> <width>\<close>, height first; in every other case the root is left as
  it is.
\<close>

theorem setViewport_height_first:
  "(reflected n ''viewBox'' = [] \<and> reflected n ''height'' \<noteq> [] \<and> reflected n ''width'' \<noteq> []
      \<longrightarrow> setViewport n = setAttribute ''viewBox''
            (''0 0 '' @ reflected n ''height'' @ '' '' @ reflected n ''width'') n)
   \<and> (\<not> (reflected n ''viewBox'' = [] \<and> reflected n ''height'' \<noteq> [] \<and> reflected n ''width'' \<noteq> [])
      \<longrightarrow> setViewport n = n)"
  by (simp add: setViewport_def truthy_getAttribute toString_getAttribute)

theorem setViewport_height_first_witness:
  "attributes (setViewport (svgElement [(''height'', ''100''), (''width'', ''50'')] None [] []))
      ''viewBox'' = Some ''0 0 100 50''
   \<and> setViewport (svgElement [(''viewBox'', ''0 0 8 8''), (''height'', ''100''), (''width'', ''50'')] None [] [])
       = svgElement [(''viewBox'', ''0 0 8 8''), (''height'', ''100''), (''width'', ''50'')] None [] []"
  using setViewport_height_first [of "svgElement [(''height'', ''100''), (''width'', ''50'')] None [] []"]
    setViewport_height_first
      [of "svgElement [(''viewBox'', ''0 0 8 8''), (''height'', ''100''), (''width'', ''50'')] None [] []"]
  by (simp add: svgElement_def reflected_def setAttribute_def)

text \<open>
  C7 as stated fails: a root with no viewBox that declares an empty height and the
  width 50 gets no viewBox.
\<close>

theorem setViewport_declared_empty_counterexample:
  "attributes (svgElement [(''height'', []), (''width'', ''50'')] None [] []) ''viewBox'' = None
   \<and> attributes (svgElement [(''height'', []), (''width'', ''50'')] None [] []) ''height'' = Some []
   \<and> attributes (svgElement [(''height'', []), (''width'', ''50'')] None [] []) ''width'' = Some ''50''
   \<and> attributes (setViewport (svgElement [(''height'', []), (''width'', ''50'')] None [] []))
        ''viewBox'' = None"
  by (simp add: svgElement_def setViewport_def getAttribute_def)

section \<open>A failed fetch\<close>

text \<open>
  C8. When the fetch of the resolved URL fails, the conversion ends with the single error
  FetchError, as the rejection of its promise chain, and the store is the one it started
  from: the placeholder is still in the document and nothing was changed.
\<close>

theorem fetch_failure_leaves_document:
  "nodeAt d svgSource = Some placeholder \<Longrightarrow>
   fetch e (toString (resolveURL placeholder)) = NetworkFailure \<Longrightarrow>
   convertSVGtoInline e svgSource d = (Some FetchError, d)"
  by (simp add: convertSVGtoInline_def)

theorem fetch_failure_leaves_document_witness:
  "convertSVGtoInline offlineBrowser 1 examplePage = (Some FetchError, examplePage)"
  using fetch_failure_leaves_document
    [of examplePage 1 examplePlaceholder offlineBrowser]
  by (simp add: examplePage_def offlineBrowser_def)

section \<open>Frame lemmas for the iterations over sheets, rules and elements\<close>

lemma nodeIds_onNode [simp]: "nodeIds (onNode i f d) = nodeIds d"
  by (simp add: onNode_def split: option.splits)

lemma nodeAt_onNode:
  "nodeAt (onNode i f d) j = (if j = i then map_option f (nodeAt d i) else nodeAt d j)"
  by (simp add: onNode_def split: option.splits)

lemma classList_replace_cases:
  "classList_replace old new n = Inr n' \<Longrightarrow> n' = n \<or> (\<exists>v. n' = setAttribute ''class'' v n)"
  by (auto simp add: classList_replace_def split: if_splits)

lemma replaceOnElements_nodeIds [simp]:
  "nodeIds (snd (replaceOnElements old new es d)) = nodeIds d"
  by (induction es arbitrary: d) (auto split: option.splits sum.splits)

lemma replaceOnElements_frame:
  assumes "\<And>v n. g (setAttribute ''class'' v n) = g n"
  shows "map_option g (nodeAt (snd (replaceOnElements old new es d)) i) = map_option g (nodeAt d i)"
proof (induction es arbitrary: d)
  case Nil
  show ?case by simp
next
  case (Cons e es)
  show ?case
  proof (cases "nodeAt d e")
    case None
    then show ?thesis using Cons.IH by simp
  next
    case (Some n)
    show ?thesis
    proof (cases "classList_replace old new n")
      case (Inl err)
      then show ?thesis using Some by simp
    next
      case (Inr n')
      have "g n' = g n" using classList_replace_cases [OF Inr] assms by auto
      then show ?thesis using Some Inr Cons.IH [of "d\<lparr>nodeAt := (nodeAt d)(e \<mapsto> n')\<rparr>"]
        by auto
    qed
  qed
qed

lemma rewriteRules_step:
  "rewriteRules uid r sn (CSSStyleRule sel decls # rules) d =
     (let res = replaceOnElements (drop 1 sel) (newElementClass uid (drop 1 sel))
                  (rev (getElementsByClassName d r (drop 1 sel)))
                  (onNode sn (\<lambda>n. n\<lparr>innerHTML :=
                     emitDeclarations (newElementClass uid (drop 1 sel)) decls (innerHTML n)\<rparr>) d)
      in if fst res = None then rewriteRules uid r sn rules (snd res) else res)"
  by (auto simp add: Let_def split: prod.splits option.splits)

declare rewriteRules.simps(3) [simp del]

lemma rewriteRules_nodeIds [simp]:
  "nodeIds (snd (rewriteRules uid r sn rules d)) = nodeIds d"
proof (induction rules arbitrary: d)
  case Nil
  show ?case by simp
next
  case (Cons rule rules)
  show ?case
  proof (cases rule)
    case CSSOtherRule
    then show ?thesis by simp
  next
    case (CSSStyleRule sel decls)
    show ?thesis unfolding CSSStyleRule
      by (simp add: rewriteRules_step Let_def Cons.IH)
  qed
qed

lemma rewriteRules_frame:
  assumes cls: "\<And>v n. g (setAttribute ''class'' v n) = g n"
    and html: "i \<noteq> sn \<or> (\<forall>h n. g (n\<lparr>innerHTML := h\<rparr>) = g n)"
  shows "map_option g (nodeAt (snd (rewriteRules uid r sn rules d)) i) = map_option g (nodeAt d i)"
proof (induction rules arbitrary: d)
  case Nil
  show ?case by simp
next
  case (Cons rule rules)
  show ?case
  proof (cases rule)
    case CSSOtherRule
    then show ?thesis by simp
  next
    case (CSSStyleRule sel decls)
    have one: "map_option g (nodeAt (onNode sn (\<lambda>n. n\<lparr>innerHTML := h n\<rparr>) d) i) = map_option g (nodeAt d i)"
      for h
      using html by (cases "nodeAt d sn") (auto simp add: nodeAt_onNode)
    show ?thesis unfolding CSSStyleRule
      by (simp add: rewriteRules_step Let_def Cons.IH replaceOnElements_frame [of g, OF cls] one)
  qed
qed

lemma forEachSheet_step:
  "forEachSheet uid r (sheet # sheets) d =
     (case ownerNode sheet of
        None \<Rightarrow> (Some TypeError, d)
      | Some sn \<Rightarrow>
          if parentOf d sn = Some r
          then (let res = rewriteRules uid r sn (cssRules sheet) (onNode sn (\<lambda>n. n\<lparr>innerHTML := []\<rparr>) d)
                in if fst res = None then forEachSheet uid r sheets (snd res) else res)
          else forEachSheet uid r sheets d)"
  by (auto simp add: Let_def split: prod.splits option.splits)

declare forEachSheet.simps(2) [simp del]

lemma forEachSheet_nodeIds [simp]:
  "nodeIds (snd (forEachSheet uid r sheets d)) = nodeIds d"
proof (induction sheets arbitrary: d)
  case Nil
  show ?case by simp
next
  case (Cons sheet sheets)
  show ?case
    by (simp add: forEachSheet_step Let_def Cons.IH split: option.splits)
qed

lemma parentOf_eq:
  "map_option parentNode (nodeAt d' i) = map_option parentNode (nodeAt d i) \<Longrightarrow>
   parentOf d' i = parentOf d i"
  by (cases "nodeAt d i"; cases "nodeAt d' i") (auto simp add: parentOf_def)

lemma forEachSheet_frame:
  assumes cls: "\<And>v n. g (setAttribute ''class'' v n) = g n"
    and html: "(\<forall>s \<in> set sheets. ownerNode s = Some i \<longrightarrow> parentOf d i \<noteq> Some r)
               \<or> (\<forall>h n. g (n\<lparr>innerHTML := h\<rparr>) = g n)"
  shows "map_option g (nodeAt (snd (forEachSheet uid r sheets d)) i) = map_option g (nodeAt d i)"
  using html
proof (induction sheets arbitrary: d)
  case Nil
  show ?case by simp
next
  case (Cons sheet sheets)
  show ?case
  proof (cases "ownerNode sheet")
    case None
    then show ?thesis by (simp add: forEachSheet_step)
  next
    case (Some sn)
    show ?thesis
    proof (cases "parentOf d sn = Some r")
      case False
      have "(\<forall>s \<in> set sheets. ownerNode s = Some i \<longrightarrow> parentOf d i \<noteq> Some r)
               \<or> (\<forall>h n. g (n\<lparr>innerHTML := h\<rparr>) = g n)"
        using Cons.prems by auto
      then show ?thesis using Some False Cons.IH [of d] by (simp add: forEachSheet_step)
    next
      case True
      define d1 where "d1 = onNode sn (\<lambda>n. n\<lparr>innerHTML := []\<rparr>) d"
      define res where "res = rewriteRules uid r sn (cssRules sheet) d1"
      have sni: "i \<noteq> sn \<or> (\<forall>h n. g (n\<lparr>innerHTML := h\<rparr>) = g n)"
        using Cons.prems Some True by auto
      have g1: "map_option g (nodeAt d1 i) = map_option g (nodeAt d i)"
        using sni by (cases "nodeAt d sn") (auto simp add: d1_def nodeAt_onNode)
      have g2: "map_option g (nodeAt (snd res) i) = map_option g (nodeAt d i)"
        unfolding res_def using rewriteRules_frame [of g i sn uid r "cssRules sheet" d1, OF cls sni] g1
        by simp
      have p1: "parentOf d1 i = parentOf d i"
        by (rule parentOf_eq) (cases "nodeAt d sn"; auto simp add: d1_def nodeAt_onNode)
      have p2: "parentOf (snd res) i = parentOf d1 i"
        unfolding res_def
        by (rule parentOf_eq, rule rewriteRules_frame) (auto simp add: setAttribute_def)
      have hyp: "(\<forall>s \<in> set sheets. ownerNode s = Some i \<longrightarrow> parentOf (snd res) i \<noteq> Some r)
               \<or> (\<forall>h n. g (n\<lparr>innerHTML := h\<rparr>) = g n)"
        using Cons.prems p1 p2 by auto
      have step: "forEachSheet uid r (sheet # sheets) d =
          (if fst res = None then forEachSheet uid r sheets (snd res) else res)"
        using Some True by (simp add: forEachSheet_step Let_def res_def d1_def)
      show ?thesis using Cons.IH [OF hyp] g2 by (simp add: step)
    qed
  qed
qed

section \<open>Splitting and joining class tokens\<close>

lemma fields_nonempty [simp]: "splitFields s \<noteq> []"
  by (induction s) (auto split: list.splits)

lemma fields_no_space: "\<forall>f \<in> set (splitFields s). \<forall>c \<in> set f. \<not> isSpace c"
proof (induction s)
  case Nil
  show ?case by simp
next
  case (Cons a s)
  then show ?case
    by (cases "splitFields s") (auto split: if_splits)
qed

lemma splitOnSpace_clean: "t \<in> set (splitOnSpace s) \<Longrightarrow> cleanToken t"
  using fields_no_space by (auto simp add: splitOnSpace_def cleanToken_def)

lemma fields_append:
  "\<forall>c \<in> set t. \<not> isSpace c \<Longrightarrow> splitFields (t @ s) = (t @ hd (splitFields s)) # tl (splitFields s)"
proof (induction t)
  case Nil
  show ?case by (cases "splitFields s") simp_all
next
  case (Cons a t)
  then show ?case by simp
qed

lemma isSpace_space [simp]: "isSpace (CHR '' '')"
  by (simp add: isSpace_def)

lemma splitOnSpace_token:
  "cleanToken t \<Longrightarrow> splitOnSpace t = [t]"
  using fields_append [of t "[]"] by (simp add: splitOnSpace_def cleanToken_def)

lemma splitOnSpace_token_space:
  "cleanToken t \<Longrightarrow> splitOnSpace (t @ CHR '' '' # s) = t # splitOnSpace s"
  using fields_append [of t "CHR '' '' # s"] by (simp add: splitOnSpace_def cleanToken_def)

lemma splitOnSpace_joinSpace:
  "\<forall>t \<in> set ts. cleanToken t \<Longrightarrow> splitOnSpace (joinSpace ts) = ts"
proof (induction ts rule: joinSpace.induct)
  case 1
  show ?case by (simp add: splitOnSpace_def)
next
  case (2 t)
  then show ?case by (simp add: splitOnSpace_token)
next
  case (3 t u us)
  then show ?case by (simp add: splitOnSpace_token_space)
qed

lemma orderedSet_distinct [simp]: "distinct (orderedSet ts)"
  by (simp add: orderedSet_def)

lemma set_orderedSet [simp]: "set (orderedSet ts) = set ts"
  by (simp add: orderedSet_def)

lemma orderedSet_id: "distinct ts \<Longrightarrow> orderedSet ts = ts"
  by (simp add: orderedSet_def distinct_remdups_id)

lemma tokenSet_canonical: "canonical (tokenSet s)"
  using splitOnSpace_clean by (auto simp add: canonical_def tokenSet_def)

lemma tokenSet_joinSpace: "canonical ts \<Longrightarrow> tokenSet (joinSpace ts) = ts"
  by (simp add: canonical_def tokenSet_def splitOnSpace_joinSpace orderedSet_id)

lemma classTokens_canonical: "canonical (classTokens n)"
  by (simp add: classTokens_def tokenSet_canonical)

lemma classTokens_setAttribute_class:
  "canonical ts \<Longrightarrow> classTokens (setAttribute ''class'' (joinSpace ts) n) = ts"
  by (simp add: classTokens_def setAttribute_def reflected_def tokenSet_joinSpace)

lemma classTokens_setAttribute_other:
  "k \<noteq> ''class'' \<Longrightarrow> classTokens (setAttribute k v n) = classTokens n"
  by (simp add: classTokens_def setAttribute_def reflected_def)

lemma canonical_snoc: "canonical ts \<Longrightarrow> cleanToken t \<Longrightarrow> t \<notin> set ts \<Longrightarrow> canonical (ts @ [t])"
  by (auto simp add: canonical_def)

lemma classTokens_classList_add:
  "cleanToken tok \<Longrightarrow> classTokens (classList_add tok n) =
     (if tok \<in> set (classTokens n) then classTokens n else classTokens n @ [tok])"
  using classTokens_canonical [of n]
  by (simp add: classList_add_def Let_def classTokens_setAttribute_class canonical_snoc)

section \<open>Attribute optimisation is idempotent\<close>

lemma typeof_className [simp]: "typeof (className n) \<noteq> ''undefined''"
  by (simp add: className_def)

lemma optimizeInlineSVG_unfold:
  "optimizeInlineSVG n =
     setViewport (removeAttribute ''xmlns:a'' (classList_add ''img-fluid''
       (classList_add ''replaced-svg'' (setAttribute ''id'' (reflected n ''id'') n))))"
  by (simp add: optimizeInlineSVG_def idProp_def Let_def)

lemma setAttribute_same: "attributes n k = Some v \<Longrightarrow> setAttribute k v n = n"
  by (simp add: setAttribute_def fun_upd_idem)

lemma removeAttribute_absent: "attributes n k = None \<Longrightarrow> removeAttribute k n = n"
  by (simp add: removeAttribute_def fun_upd_idem)

lemma classList_add_present:
  "attributes n ''class'' = Some (joinSpace (classTokens n)) \<Longrightarrow> tok \<in> set (classTokens n) \<Longrightarrow>
   classList_add tok n = n"
  by (simp add: classList_add_def setAttribute_same)

lemma setViewport_idem: "setViewport (setViewport n) = setViewport n"
  by (simp add: setViewport_def getAttribute_def setAttribute_def)

lemma attributes_setViewport: "k \<noteq> ''viewBox'' \<Longrightarrow> attributes (setViewport n) k = attributes n k"
  by (simp add: setViewport_def setAttribute_def)

lemma cleanToken_markers [simp]: "cleanToken ''replaced-svg''" "cleanToken ''img-fluid''"
  by (simp_all add: cleanToken_def isSpace_def)

lemma attributes_classList_add_class:
  "cleanToken tok \<Longrightarrow>
   attributes (classList_add tok n) ''class'' = Some (joinSpace (classTokens (classList_add tok n)))"
  using classTokens_canonical [of n]
  by (simp add: classList_add_def Let_def classTokens_setAttribute_class canonical_snoc)
     (simp add: setAttribute_def)

lemma attributes_classList_add_other:
  "k \<noteq> ''class'' \<Longrightarrow> attributes (classList_add tok n) k = attributes n k"
  by (simp add: classList_add_def Let_def setAttribute_def)

lemma classTokens_attr_eq:
  "attributes m ''class'' = attributes n ''class'' \<Longrightarrow> classTokens m = classTokens n"
  by (simp add: classTokens_def reflected_def)

lemma reflected_attr_eq: "attributes m k = attributes n k \<Longrightarrow> reflected m k = reflected n k"
  by (simp add: reflected_def)

lemma optimizeInlineSVG_facts:
  "attributes (optimizeInlineSVG n) ''id'' = Some (reflected n ''id'')"
  "attributes (optimizeInlineSVG n) ''xmlns:a'' = None"
  "attributes (optimizeInlineSVG n) ''class'' = Some (joinSpace (classTokens (optimizeInlineSVG n)))"
  "''replaced-svg'' \<in> set (classTokens (optimizeInlineSVG n))"
  "''img-fluid'' \<in> set (classTokens (optimizeInlineSVG n))"
proof -
  define a where "a = setAttribute ''id'' (reflected n ''id'') n"
  define b where "b = classList_add ''replaced-svg'' a"
  define c where "c = classList_add ''img-fluid'' b"
  define e where "e = removeAttribute ''xmlns:a'' c"
  have opt: "optimizeInlineSVG n = setViewport e"
    by (simp add: optimizeInlineSVG_unfold a_def b_def c_def e_def)
  have ec: "attributes e ''class'' = attributes c ''class''"
    by (simp add: e_def removeAttribute_def)
  have sc: "attributes (setViewport e) ''class'' = attributes c ''class''"
    by (simp add: attributes_setViewport ec)
  have tok: "classTokens (setViewport e) = classTokens c"
    by (rule classTokens_attr_eq) (rule sc)
  show "attributes (optimizeInlineSVG n) ''id'' = Some (reflected n ''id'')"
    by (simp add: opt attributes_setViewport e_def removeAttribute_def c_def b_def
        attributes_classList_add_other a_def setAttribute_def)
  show "attributes (optimizeInlineSVG n) ''xmlns:a'' = None"
    by (simp add: opt attributes_setViewport e_def removeAttribute_def)
  show "attributes (optimizeInlineSVG n) ''class'' = Some (joinSpace (classTokens (optimizeInlineSVG n)))"
    by (simp add: opt sc tok) (simp add: c_def attributes_classList_add_class)
  show "''replaced-svg'' \<in> set (classTokens (optimizeInlineSVG n))"
    by (simp add: opt tok c_def b_def classTokens_classList_add)
  show "''img-fluid'' \<in> set (classTokens (optimizeInlineSVG n))"
    by (simp add: opt tok c_def classTokens_classList_add)
qed

lemma optimizeInlineSVG_fixed:
  assumes "attributes m ''id'' \<noteq> None"
    and "attributes m ''xmlns:a'' = None"
    and "attributes m ''class'' = Some (joinSpace (classTokens m))"
    and "''replaced-svg'' \<in> set (classTokens m)"
    and "''img-fluid'' \<in> set (classTokens m)"
    and "setViewport m = m"
  shows "optimizeInlineSVG m = m"
proof -
  have a: "setAttribute ''id'' (reflected m ''id'') m = m"
    using assms(1) by (auto simp add: setAttribute_same reflected_def)
  show ?thesis
    by (simp add: optimizeInlineSVG_unfold a classList_add_present assms removeAttribute_absent)
qed

lemma optimizeInlineSVG_idem: "optimizeInlineSVG (optimizeInlineSVG n) = optimizeInlineSVG n"
proof (rule optimizeInlineSVG_fixed)
  show "setViewport (optimizeInlineSVG n) = optimizeInlineSVG n"
    by (simp add: optimizeInlineSVG_unfold setViewport_idem)
qed (simp_all add: optimizeInlineSVG_facts)

section \<open>Replacing the placeholder\<close>

lemma onNode_fixed: "nodeAt d i = Some m \<Longrightarrow> f m = m \<Longrightarrow> onNode i f d = d"
  by (simp add: onNode_def fun_upd_idem)

lemma replaceChild_nodeIds [simp]: "nodeIds (replaceChild p r s d) = nodeIds d"
  by (simp add: replaceChild_def Let_def split: option.splits)

lemma replaceChild_frame:
  assumes "\<And>f n. g (n\<lparr>childNodes := f\<rparr>) = g n" and "\<And>f n. g (n\<lparr>parentNode := f\<rparr>) = g n"
  shows "map_option g (nodeAt (replaceChild p r s d) i) = map_option g (nodeAt d i)"
proof -
  have one: "map_option g (nodeAt (onNode j (\<lambda>n. n\<lparr>childNodes := h n\<rparr>) d') i) = map_option g (nodeAt d' i)"
    for j h d'
    using assms(1) by (cases "nodeAt d' j") (auto simp add: nodeAt_onNode)
  have two: "map_option g (nodeAt (onNode j (\<lambda>n. n\<lparr>parentNode := h\<rparr>) d') i) = map_option g (nodeAt d' i)"
    for j h d'
    using assms(2) by (cases "nodeAt d' j") (auto simp add: nodeAt_onNode)
  show ?thesis
    by (simp add: replaceChild_def Let_def one two split: option.splits)
qed

lemma setViewport_fixed_attrs:
  assumes "attributes m = attributes n" and "setViewport n = n"
  shows "setViewport m = m"
proof -
  have "\<not> (\<not> truthy (getAttribute n ''viewBox'') \<and> truthy (getAttribute n ''height'')
         \<and> truthy (getAttribute n ''width''))"
  proof
    assume c: "\<not> truthy (getAttribute n ''viewBox'') \<and> truthy (getAttribute n ''height'')
         \<and> truthy (getAttribute n ''width'')"
    then have "truthy (getAttribute (setViewport n) ''viewBox'')"
      by (simp add: setViewport_def getAttribute_def setAttribute_def)
    then show False using c assms(2) by simp
  qed
  moreover have "getAttribute m k = getAttribute n k" for k
    using assms(1) by (simp add: getAttribute_def)
  ultimately show ?thesis unfolding setViewport_def by auto
qed

lemma optimizeInlineSVG_fixed_attrs:
  assumes "attributes m = attributes (optimizeInlineSVG n)"
  shows "optimizeInlineSVG m = m"
proof (rule optimizeInlineSVG_fixed)
  have tok: "classTokens m = classTokens (optimizeInlineSVG n)"
    by (rule classTokens_attr_eq) (simp add: assms)
  show "attributes m ''id'' \<noteq> None" using assms by (simp add: optimizeInlineSVG_facts)
  show "attributes m ''xmlns:a'' = None" using assms by (simp add: optimizeInlineSVG_facts)
  show "attributes m ''class'' = Some (joinSpace (classTokens m))"
    using assms tok optimizeInlineSVG_facts(3) [of n] by simp
  show "''replaced-svg'' \<in> set (classTokens m)" using tok by (simp add: optimizeInlineSVG_facts)
  show "''img-fluid'' \<in> set (classTokens m)" using tok by (simp add: optimizeInlineSVG_facts)
  show "setViewport m = m"
    using assms by (rule setViewport_fixed_attrs) (simp add: optimizeInlineSVG_unfold setViewport_idem)
qed

lemma optimize_after_replaceChild:
  assumes "nodeAt d r = Some root"
  shows "onNode r optimizeInlineSVG (replaceChild p r s (onNode r optimizeInlineSVG d))
         = replaceChild p r s (onNode r optimizeInlineSVG d)"
proof -
  define d2 where "d2 = replaceChild p r s (onNode r optimizeInlineSVG d)"
  have "map_option attributes (nodeAt d2 r) = map_option attributes (nodeAt (onNode r optimizeInlineSVG d) r)"
    unfolding d2_def by (rule replaceChild_frame) simp_all
  then have "map_option attributes (nodeAt d2 r) = Some (attributes (optimizeInlineSVG root))"
    using assms by (simp add: nodeAt_onNode)
  then obtain m where m: "nodeAt d2 r = Some m" "attributes m = attributes (optimizeInlineSVG root)"
    by auto
  have "onNode r optimizeInlineSVG d2 = d2"
    using m(1) by (rule onNode_fixed) (rule optimizeInlineSVG_fixed_attrs, rule m(2))
  then show ?thesis by (simp add: d2_def)
qed

lemma processFeaturedMerchantsImages_fixups:
  "processFeaturedMerchantsImages e r d = postInsertionFixups e r (onNode r optimizeInlineSVG d)"
  by (simp add: processFeaturedMerchantsImages_def postInsertionFixups_def Let_def)

lemma parentNode_optimizeInlineSVG [simp]: "parentNode (optimizeInlineSVG n) = parentNode n"
  by (simp add: optimizeInlineSVG_unfold setViewport_def setAttribute_def removeAttribute_def
      classList_add_def Let_def)

lemma childNodes_optimizeInlineSVG [simp]: "childNodes (optimizeInlineSVG n) = childNodes n"
  by (simp add: optimizeInlineSVG_unfold setViewport_def setAttribute_def removeAttribute_def
      classList_add_def Let_def)

lemma parentOf_onNode_optimize [simp]: "parentOf (onNode r optimizeInlineSVG d) i = parentOf d i"
  by (cases "nodeAt d r") (auto simp add: parentOf_def nodeAt_onNode)

lemma convert_success_path:
  assumes "nodeAt d s = Some placeholder"
    and "fetch e (toString (resolveURL placeholder)) = ResponseText text"
    and "parseFromString e text = Some r"
    and "nodeAt d r = Some root"
    and "parentNode placeholder = Some p"
  shows "convertSVGtoInline e s d
         = postInsertionFixups e r (replaceChild p r s (onNode r optimizeInlineSVG d))"
proof -
  have "parentOf d s = Some p" using assms(1,5) by (simp add: parentOf_def)
  then show ?thesis
    using assms
    by (simp add: convertSVGtoInline_def insertParsed_def Let_def
        processFeaturedMerchantsImages_fixups optimize_after_replaceChild)
qed

section \<open>Frame lemmas for the fixups\<close>

lemma svgPrependClassIdentifiers_nodeIds [simp]:
  "nodeIds (snd (svgPrependClassIdentifiers e r d)) = nodeIds d"
  by (simp add: svgPrependClassIdentifiers_def Let_def)

lemma svgPrependClassIdentifiers_frame:
  assumes "\<And>v n. g (setAttribute ''class'' v n) = g n"
    and "\<And>h n. g (n\<lparr>innerHTML := h\<rparr>) = g n"
  shows "map_option g (nodeAt (snd (svgPrependClassIdentifiers e r d)) i) = map_option g (nodeAt d i)"
  unfolding svgPrependClassIdentifiers_def Let_def
  by (rule forEachSheet_frame) (simp_all add: assms)

lemma removeSVGWhiteSpace_frame:
  assumes "\<And>v n. g (setAttribute ''viewBox'' v n) = g n"
  shows "map_option g (nodeAt (snd (removeSVGWhiteSpace e r d)) i) = map_option g (nodeAt d i)"
  using assms by (cases "nodeAt d r") (auto simp add: removeSVGWhiteSpace_def Let_def nodeAt_onNode)

lemma safariHack_frame:
  assumes "\<And>v n. g (n\<lparr>displayStyle := v\<rparr>) = g n"
  shows "map_option g (nodeAt (snd (safariHack r d)) i) = map_option g (nodeAt d i)"
  using assms by (cases "nodeAt d r") (auto simp add: safariHack_def Let_def nodeAt_onNode)

lemma postInsertionFixups_steps:
  "postInsertionFixups e r d =
     (if fst (removeSVGWhiteSpace e r d) \<noteq> None then removeSVGWhiteSpace e r d
      else if fst (svgPrependClassIdentifiers e r (snd (removeSVGWhiteSpace e r d))) \<noteq> None
      then svgPrependClassIdentifiers e r (snd (removeSVGWhiteSpace e r d))
      else safariHack r (snd (svgPrependClassIdentifiers e r (snd (removeSVGWhiteSpace e r d)))))"
  by (auto simp add: postInsertionFixups_def split: prod.splits option.splits)

lemma postInsertionFixups_frame:
  assumes c: "\<And>v n. g (setAttribute ''class'' v n) = g n"
    and h: "\<And>h n. g (n\<lparr>innerHTML := h\<rparr>) = g n"
    and v: "\<And>v n. g (setAttribute ''viewBox'' v n) = g n"
    and s: "\<And>v n. g (n\<lparr>displayStyle := v\<rparr>) = g n"
  shows "map_option g (nodeAt (snd (postInsertionFixups e r d)) i) = map_option g (nodeAt d i)"
proof -
  define d2 where "d2 = snd (removeSVGWhiteSpace e r d)"
  define d3 where "d3 = snd (svgPrependClassIdentifiers e r d2)"
  have a: "map_option g (nodeAt d2 i) = map_option g (nodeAt d i)"
    unfolding d2_def using v by (rule removeSVGWhiteSpace_frame)
  have b: "map_option g (nodeAt d3 i) = map_option g (nodeAt d2 i)"
    unfolding d3_def using c h by (rule svgPrependClassIdentifiers_frame)
  have e: "map_option g (nodeAt (snd (safariHack r d3)) i) = map_option g (nodeAt d3 i)"
    using s by (rule safariHack_frame)
  have "snd (postInsertionFixups e r d) = d2 \<or> snd (postInsertionFixups e r d) = d3
      \<or> snd (postInsertionFixups e r d) = snd (safariHack r d3)"
    by (simp add: postInsertionFixups_steps d2_def d3_def)
  then show ?thesis using a b e by (elim disjE) (simp_all only:)
qed

lemma exists_iff:
  "map_option (\<lambda>n::node. ()) x = map_option (\<lambda>n::node. ()) y \<Longrightarrow> (x = None) = (y = None)"
  by (cases x; cases y; simp)

lemma fixups_exists:
  "(nodeAt (snd (postInsertionFixups e r d)) i = None) = (nodeAt d i = None)"
  by (rule exists_iff, rule postInsertionFixups_frame) simp_all

lemma replaceChild_exists:
  "(nodeAt (replaceChild p r s d) i = None) = (nodeAt d i = None)"
  by (rule exists_iff, rule replaceChild_frame) simp_all

lemma onNode_exists: "(nodeAt (onNode r f d) i = None) = (nodeAt d i = None)"
  by (cases "nodeAt d r") (auto simp add: nodeAt_onNode)



lemma safariHack_display:
  "fst (safariHack r d) = None \<Longrightarrow>
   map_option displayStyle (nodeAt (snd (safariHack r d)) r) = Some ''flex''"
  by (cases "nodeAt d r") (auto simp add: safariHack_def Let_def nodeAt_onNode split: if_splits)

lemma fixups_display:
  assumes "fst (postInsertionFixups e r d) = None"
  shows "map_option displayStyle (nodeAt (snd (postInsertionFixups e r d)) r) = Some ''flex''"
proof -
  define d3 where "d3 = snd (svgPrependClassIdentifiers e r (snd (removeSVGWhiteSpace e r d)))"
  have "postInsertionFixups e r d = safariHack r d3"
    using assms unfolding postInsertionFixups_steps d3_def by (auto split: if_splits)
  then show ?thesis using assms safariHack_display [of r d3] by simp
qed

lemma replaceChild_tree:
  assumes s: "nodeAt d s = Some placeholder"
    and p: "nodeAt d p = Some parent"
    and r: "nodeAt d r = Some root"
    and rs: "r \<noteq> s"
    and rp: "parentNode root \<noteq> Some p"
  shows "parentOf (replaceChild p r s d) s = None"
    and "parentOf (replaceChild p r s d) r = Some p"
    and "map_option childNodes (nodeAt (replaceChild p r s d) p)
         = Some (map (\<lambda>c. if c = s then r else c) (childNodes parent))"
proof -
  define d1 where "d1 = (case parentOf d r of None \<Rightarrow> d
     | Some q \<Rightarrow> onNode q (\<lambda>n. n\<lparr>childNodes := removeAll r (childNodes n)\<rparr>) d)"
  define d2 where "d2 = onNode p
     (\<lambda>n. n\<lparr>childNodes := map (\<lambda>c. if c = s then r else c) (childNodes n)\<rparr>) d1"
  define d3 where "d3 = onNode s (\<lambda>n. n\<lparr>parentNode := None\<rparr>) d2"
  have rc: "replaceChild p r s d = onNode r (\<lambda>n. n\<lparr>parentNode := Some p\<rparr>) d3"
    by (simp add: replaceChild_def Let_def d1_def d2_def d3_def)
  have q: "parentOf d r \<noteq> Some p" using r rp by (simp add: parentOf_def)
  have p1: "nodeAt d1 p = Some parent"
    using p q by (auto simp add: d1_def nodeAt_onNode split: option.splits)
  have ex1: "(nodeAt d1 i = None) = (nodeAt d i = None)" for i
    by (simp add: d1_def onNode_exists split: option.splits)
  have ex2: "(nodeAt d2 i = None) = (nodeAt d i = None)" for i
    by (simp add: d2_def onNode_exists ex1)
  have ex3: "(nodeAt d3 i = None) = (nodeAt d i = None)" for i
    by (simp add: d3_def onNode_exists ex2)
  obtain s2 where s2: "nodeAt d2 s = Some s2" using ex2 [of s] s by auto
  obtain r3 where r3: "nodeAt d3 r = Some r3" using ex3 [of r] r by auto
  show "parentOf (replaceChild p r s d) s = None"
    using rs s2 by (simp add: rc parentOf_def nodeAt_onNode r3 d3_def)
  show "parentOf (replaceChild p r s d) r = Some p"
    using r3 by (simp add: rc parentOf_def nodeAt_onNode)
  have "map_option childNodes (nodeAt d2 p)
         = Some (map (\<lambda>c. if c = s then r else c) (childNodes parent))"
    using p1 by (simp add: d2_def nodeAt_onNode)
  moreover have "map_option childNodes (nodeAt (replaceChild p r s d) p) = map_option childNodes (nodeAt d2 p)"
    using s2 r3 by (auto simp add: rc d3_def nodeAt_onNode)
  ultimately show "map_option childNodes (nodeAt (replaceChild p r s d) p)
         = Some (map (\<lambda>c. if c = s then r else c) (childNodes parent))"
    by simp
qed

section \<open>The conversion of the example page\<close>

lemma example_facts:
  "nodeAt examplePage 1 = Some examplePlaceholder"
  "fetch exampleBrowser (toString (resolveURL examplePlaceholder)) = ResponseText ''<svg/>''"
  "parseFromString exampleBrowser ''<svg/>'' = Some 2"
  "nodeAt examplePage 2 = Some exampleRoot"
  "parentNode examplePlaceholder = Some 0"
  "nodeAt examplePage 0 = Some exampleBody"
  "(2::nat) \<noteq> 1"
  "parentNode exampleRoot \<noteq> Some 0"
  by (simp_all add: examplePage_def exampleBrowser_def examplePlaceholder_def exampleRoot_def
      htmlElement_def svgElement_def imgElement_def resolveURL_def js_or_def dataset_svgSrc_def)

section \<open>Trimming the bounds\<close>

lemma kind_optimizeInlineSVG [simp]: "kind (optimizeInlineSVG n) = kind n"
  by (simp add: optimizeInlineSVG_unfold setViewport_def setAttribute_def removeAttribute_def
      classList_add_def Let_def)

lemma inserted_root:
  assumes "nodeAt d r = Some root"
  shows "\<exists>m. nodeAt (replaceChild p r s (onNode r optimizeInlineSVG d)) r = Some m
           \<and> kind m = kind root \<and> attributes m = attributes (optimizeInlineSVG root)"
proof -
  define d1 where "d1 = onNode r optimizeInlineSVG d"
  have r1: "nodeAt d1 r = Some (optimizeInlineSVG root)"
    using assms by (simp add: d1_def nodeAt_onNode)
  have k: "map_option kind (nodeAt (replaceChild p r s d1) r) = map_option kind (nodeAt d1 r)"
    by (rule replaceChild_frame) simp_all
  have a: "map_option attributes (nodeAt (replaceChild p r s d1) r)
      = map_option attributes (nodeAt d1 r)"
    by (rule replaceChild_frame) simp_all
  show ?thesis
    using k a r1 unfolding d1_def
    by (cases "nodeAt (replaceChild p r s (onNode r optimizeInlineSVG d)) r") simp_all
qed




section \<open>Detaching and attaching\<close>

lemma replaceChild_detaches:
  assumes "nodeAt d s = Some placeholder" and "r \<noteq> s"
  shows "parentOf (replaceChild p r s d) s = None"
proof -
  define d1 where "d1 = (case parentOf d r of None \<Rightarrow> d
     | Some q \<Rightarrow> onNode q (\<lambda>n. n\<lparr>childNodes := removeAll r (childNodes n)\<rparr>) d)"
  define d2 where "d2 = onNode p
     (\<lambda>n. n\<lparr>childNodes := map (\<lambda>c. if c = s then r else c) (childNodes n)\<rparr>) d1"
  have rc: "replaceChild p r s d
      = onNode r (\<lambda>n. n\<lparr>parentNode := Some p\<rparr>) (onNode s (\<lambda>n. n\<lparr>parentNode := None\<rparr>) d2)"
    by (simp add: replaceChild_def Let_def d1_def d2_def)
  have "(nodeAt d1 s = None) = (nodeAt d s = None)"
    by (simp add: d1_def onNode_exists split: option.splits)
  then have "nodeAt d2 s \<noteq> None" using assms(1) by (simp add: d2_def onNode_exists)
  then obtain s2 where s2: "nodeAt d2 s = Some s2" by auto
  show ?thesis
    using assms(2) s2
    by (cases "nodeAt (onNode s (\<lambda>n. n\<lparr>parentNode := None\<rparr>) d2) r")
       (simp_all add: rc parentOf_def nodeAt_onNode onNode_def)
qed

lemma replaceChild_attaches:
  assumes "nodeAt d r = Some root"
  shows "parentOf (replaceChild p r s d) r = Some p"
proof -
  define d1 where "d1 = (case parentOf d r of None \<Rightarrow> d
     | Some q \<Rightarrow> onNode q (\<lambda>n. n\<lparr>childNodes := removeAll r (childNodes n)\<rparr>) d)"
  define d3 where "d3 = onNode s (\<lambda>n. n\<lparr>parentNode := None\<rparr>) (onNode p
     (\<lambda>n. n\<lparr>childNodes := map (\<lambda>c. if c = s then r else c) (childNodes n)\<rparr>) d1)"
  have rc: "replaceChild p r s d = onNode r (\<lambda>n. n\<lparr>parentNode := Some p\<rparr>) d3"
    by (simp add: replaceChild_def Let_def d1_def d3_def)
  have "(nodeAt d1 r = None) = (nodeAt d r = None)"
    by (simp add: d1_def onNode_exists split: option.splits)
  then have "nodeAt d3 r \<noteq> None" using assms by (simp add: d3_def onNode_exists)
  then obtain r3 where "nodeAt d3 r = Some r3" by auto
  then show ?thesis by (simp add: rc parentOf_def nodeAt_onNode)
qed

section \<open>One replacement, between optimisation and fixups\<close>

text \<open>
  C4. Let the text be fetched and parsed to the root \<open>r\<close>, a node other than the
  placeholder \<open>s\<close>. The optimisation comes first: when the placeholder has no parent the
  replacement cannot be made, and the conversion ends with a TypeError in the store in
  which the root is already optimised (it has its \<open>id\<close> attribute and the marker classes,
  and no \<open>xmlns:a\<close>) and nothing else has changed. When the placeholder has the parent
  \<open>p\<close>, the conversion is the trim, the namespacing and the repaint run on the document in
  which the optimised root has replaced the placeholder, and that document holds the
  root with all its optimisations, as a child of \<open>p\<close>. In the final document (whether or
  not a fixup throws) the placeholder is detached, the root is a child of \<open>p\<close>, and the
  children of \<open>p\<close> are the former ones with the root in the placeholder's position: one
  root for the placeholder, put in its place once.
\<close>

theorem placeholder_replaced_once_after_optimisation:
  assumes "nodeAt d s = Some placeholder"
    and "fetch e (toString (resolveURL placeholder)) = ResponseText text"
    and "parseFromString e text = Some r"
    and "nodeAt d r = Some root"
    and "r \<noteq> s"
  shows "(parentNode placeholder = None \<longrightarrow>
            fst (convertSVGtoInline e s d) = Some TypeError
            \<and> snd (convertSVGtoInline e s d) = onNode r optimizeInlineSVG d
            \<and> nodeAt (snd (convertSVGtoInline e s d)) s = Some placeholder
            \<and> (\<exists>n. nodeAt (snd (convertSVGtoInline e s d)) r = Some n
                  \<and> attributes n ''id'' = Some (reflected root ''id'')
                  \<and> ''replaced-svg'' \<in> set (classTokens n)
                  \<and> ''img-fluid'' \<in> set (classTokens n)
                  \<and> attributes n ''xmlns:a'' = None))
       \<and> (parentNode placeholder = Some p \<longrightarrow>
            convertSVGtoInline e s d
              = postInsertionFixups e r (replaceChild p r s (onNode r optimizeInlineSVG d))
            \<and> (\<exists>n. nodeAt (replaceChild p r s (onNode r optimizeInlineSVG d)) r = Some n
                  \<and> parentNode n = Some p
                  \<and> attributes n ''id'' = Some (reflected root ''id'')
                  \<and> ''replaced-svg'' \<in> set (classTokens n)
                  \<and> ''img-fluid'' \<in> set (classTokens n)
                  \<and> attributes n ''xmlns:a'' = None)
            \<and> parentOf (snd (convertSVGtoInline e s d)) s = None
            \<and> parentOf (snd (convertSVGtoInline e s d)) r = Some p)
       \<and> (parentNode placeholder = Some p \<and> nodeAt d p = Some parent \<and> parentNode root \<noteq> Some p \<longrightarrow>
            map_option childNodes (nodeAt (snd (convertSVGtoInline e s d)) p)
              = Some (map (\<lambda>c. if c = s then r else c) (childNodes parent)))"
proof -
  define d1 where "d1 = onNode r optimizeInlineSVG d"
  have s1: "nodeAt d1 s = Some placeholder"
    using assms(1,5) by (simp add: d1_def nodeAt_onNode assms(4))
  have r1: "nodeAt d1 r = Some (optimizeInlineSVG root)"
    using assms(4) by (simp add: d1_def nodeAt_onNode)
  have opt: "attributes (optimizeInlineSVG root) ''id'' = Some (reflected root ''id'')
      \<and> ''replaced-svg'' \<in> set (classTokens (optimizeInlineSVG root))
      \<and> ''img-fluid'' \<in> set (classTokens (optimizeInlineSVG root))
      \<and> attributes (optimizeInlineSVG root) ''xmlns:a'' = None"
    by (simp add: optimizeInlineSVG_facts)
  have orphan: "fst (convertSVGtoInline e s d) = Some TypeError
            \<and> snd (convertSVGtoInline e s d) = onNode r optimizeInlineSVG d
            \<and> nodeAt (snd (convertSVGtoInline e s d)) s = Some placeholder
            \<and> (\<exists>n. nodeAt (snd (convertSVGtoInline e s d)) r = Some n
                  \<and> attributes n ''id'' = Some (reflected root ''id'')
                  \<and> ''replaced-svg'' \<in> set (classTokens n)
                  \<and> ''img-fluid'' \<in> set (classTokens n)
                  \<and> attributes n ''xmlns:a'' = None)"
    if none: "parentNode placeholder = None"
  proof -
    have "parentOf d1 s = None" using s1 none by (simp add: parentOf_def)
    then have "convertSVGtoInline e s d = (Some TypeError, d1)"
      using assms(1-4) by (simp add: convertSVGtoInline_def insertParsed_def Let_def d1_def)
    then show ?thesis using s1 r1 opt by (simp add: d1_def)
  qed
  have attached: "convertSVGtoInline e s d
              = postInsertionFixups e r (replaceChild p r s (onNode r optimizeInlineSVG d))
            \<and> (\<exists>n. nodeAt (replaceChild p r s (onNode r optimizeInlineSVG d)) r = Some n
                  \<and> parentNode n = Some p
                  \<and> attributes n ''id'' = Some (reflected root ''id'')
                  \<and> ''replaced-svg'' \<in> set (classTokens n)
                  \<and> ''img-fluid'' \<in> set (classTokens n)
                  \<and> attributes n ''xmlns:a'' = None)
            \<and> parentOf (snd (convertSVGtoInline e s d)) s = None
            \<and> parentOf (snd (convertSVGtoInline e s d)) r = Some p"
    if some: "parentNode placeholder = Some p"
  proof -
    define d2 where "d2 = replaceChild p r s d1"
    have conv: "convertSVGtoInline e s d = postInsertionFixups e r d2"
      unfolding d2_def d1_def by (rule convert_success_path [OF assms(1-4) some])
    obtain m where m: "nodeAt d2 r = Some m" "attributes m = attributes (optimizeInlineSVG root)"
      using inserted_root [OF assms(4), of p s] unfolding d2_def d1_def by blast
    have pr: "parentOf d2 r = Some p" unfolding d2_def using r1 by (rule replaceChild_attaches)
    have ps: "parentOf d2 s = None" unfolding d2_def using s1 assms(5) by (rule replaceChild_detaches)
    have mp: "parentNode m = Some p" using pr m(1) by (simp add: parentOf_def)
    have tok: "classTokens m = classTokens (optimizeInlineSVG root)"
      by (rule classTokens_attr_eq) (simp add: m(2))
    have par: "parentOf (snd (postInsertionFixups e r d2)) i = parentOf d2 i" for i
      by (rule parentOf_eq, rule postInsertionFixups_frame) (simp_all add: setAttribute_def)
    show ?thesis
      using conv m mp tok opt par pr ps by (simp add: d2_def d1_def)
  qed
  have kids: "map_option childNodes (nodeAt (snd (convertSVGtoInline e s d)) p)
              = Some (map (\<lambda>c. if c = s then r else c) (childNodes parent))"
    if some: "parentNode placeholder = Some p" and p: "nodeAt d p = Some parent"
      and rp: "parentNode root \<noteq> Some p"
  proof -
    define d2 where "d2 = replaceChild p r s d1"
    have conv: "convertSVGtoInline e s d = postInsertionFixups e r d2"
      unfolding d2_def d1_def by (rule convert_success_path [OF assms(1-4) some])
    obtain parent1 where p1: "nodeAt d1 p = Some parent1" "childNodes parent1 = childNodes parent"
      using assms(4) p by (cases "p = r") (auto simp add: d1_def nodeAt_onNode)
    have rp1: "parentNode (optimizeInlineSVG root) \<noteq> Some p" using rp by simp
    note tree = replaceChild_tree [OF s1 p1(1) r1 assms(5) rp1, folded d2_def]
    have "map_option childNodes (nodeAt (snd (postInsertionFixups e r d2)) p)
        = map_option childNodes (nodeAt d2 p)"
      by (rule postInsertionFixups_frame) (simp_all add: setAttribute_def)
    then show ?thesis using tree(3) p1(2) by (simp add: conv)
  qed
  show ?thesis using orphan attached kids by blast
qed

text \<open>
  On the example page the root ends in the placeholder's position under the body; with
  the placeholder detached beforehand, the conversion stops at the replacement with the
  root already optimised.
\<close>

theorem placeholder_replaced_once_after_optimisation_witness:
  "convertSVGtoInline exampleBrowser 1 examplePage
       = postInsertionFixups exampleBrowser 2
           (replaceChild 0 2 1 (onNode 2 optimizeInlineSVG examplePage))
   \<and> parentOf (snd (convertSVGtoInline exampleBrowser 1 examplePage)) 1 = None
   \<and> parentOf (snd (convertSVGtoInline exampleBrowser 1 examplePage)) 2 = Some 0
   \<and> map_option childNodes (nodeAt (snd (convertSVGtoInline exampleBrowser 1 examplePage)) 0)
       = Some [2, 5]
   \<and> attributeAt (replaceChild 0 2 1 (onNode 2 optimizeInlineSVG examplePage)) 2 ''class''
       = Some ''replaced-svg img-fluid''
   \<and> convertSVGtoInline exampleBrowser 1 orphanPage
       = (Some TypeError, onNode 2 optimizeInlineSVG orphanPage)
   \<and> attributeAt (snd (convertSVGtoInline exampleBrowser 1 orphanPage)) 2 ''class''
       = Some ''replaced-svg img-fluid''"
proof -
  have m: "map (\<lambda>c. if c = 1 then 2 else c) (childNodes exampleBody) = [2, 5::nat]"
    by (simp add: exampleBody_def htmlElement_def)
  note a = placeholder_replaced_once_after_optimisation
    [OF example_facts(1-4) example_facts(7), of 0 exampleBody, unfolded m]
  have o1: "nodeAt orphanPage 1 = Some orphanPlaceholder" by (simp add: orphanPage_def)
  have o2: "fetch exampleBrowser (toString (resolveURL orphanPlaceholder)) = ResponseText ''<svg/>''"
    using example_facts(2) by (simp add: orphanPlaceholder_def resolveURL_def dataset_svgSrc_def)
  have o4: "nodeAt orphanPage 2 = Some exampleRoot"
    using example_facts(4) by (simp add: orphanPage_def)
  have o5: "parentNode orphanPlaceholder = None" by (simp add: orphanPlaceholder_def)
  note b = placeholder_replaced_once_after_optimisation
    [OF o1 o2 example_facts(3) o4 example_facts(7), of 0 exampleBody]
  have c: "attributeAt (replaceChild 0 2 1 (onNode 2 optimizeInlineSVG examplePage)) 2 ''class''
       = Some ''replaced-svg img-fluid''
     \<and> attributeAt (snd (convertSVGtoInline exampleBrowser 1 orphanPage)) 2 ''class''
       = Some ''replaced-svg img-fluid''"
    by code_simp
  have b': "convertSVGtoInline exampleBrowser 1 orphanPage
       = (Some TypeError, onNode 2 optimizeInlineSVG orphanPage)"
    using b o5 by (simp add: prod_eq_iff)
  have a1: "convertSVGtoInline exampleBrowser 1 examplePage
       = postInsertionFixups exampleBrowser 2
           (replaceChild 0 2 1 (onNode 2 optimizeInlineSVG examplePage))"
    using a example_facts(5) by blast
  have a2: "parentOf (snd (convertSVGtoInline exampleBrowser 1 examplePage)) 1 = None"
    using a example_facts(5) by blast
  have a3: "parentOf (snd (convertSVGtoInline exampleBrowser 1 examplePage)) 2 = Some 0"
    using a example_facts(5) by blast
  have a4: "map_option childNodes (nodeAt (snd (convertSVGtoInline exampleBrowser 1 examplePage)) 0)
       = Some [2, 5]"
    using a example_facts(5,6,8) by blast
  show ?thesis
    by (intro conjI a1 a2 a3 a4 b' conjunct1 [OF c] conjunct2 [OF c])
qed

section \<open>The forced repaint\<close>

text \<open>
  C10. When a conversion completes without an error, the root's \<open>style.display\<close> in the
  final document is \<open>flex\<close>, whatever it was before: \<open>safariHack\<close> sets it to \<open>none\<close> and
  then to \<open>flex\<close>, and never puts the former value back.
\<close>

theorem completed_conversion_displays_flex:
  assumes "nodeAt d s = Some placeholder"
    and "fetch e (toString (resolveURL placeholder)) = ResponseText text"
    and "parseFromString e text = Some r"
    and "convertSVGtoInline e s d = (None, d')"
  shows "map_option displayStyle (nodeAt d' r) = Some ''flex''"
proof -
  have ins: "insertParsed e s text d = (None, d')"
    using assms by (simp add: convertSVGtoInline_def)
  obtain root where root: "nodeAt d r = Some root"
    using ins assms(3) by (cases "nodeAt d r") (simp_all add: insertParsed_def)
  have "parentOf (onNode r optimizeInlineSVG d) s = parentOf d s" by simp
  also have "\<dots> = parentNode placeholder" using assms(1) by (simp add: parentOf_def)
  finally have par: "parentOf (onNode r optimizeInlineSVG d) s = parentNode placeholder" .
  obtain p where p: "parentNode placeholder = Some p"
    using ins assms(3) root par
    by (cases "parentNode placeholder") (simp_all add: insertParsed_def Let_def)
  define d2 where "d2 = replaceChild p r s (onNode r optimizeInlineSVG d)"
  have conv: "postInsertionFixups e r d2 = (None, d')"
    using convert_success_path [OF assms(1-3) root p] assms(4) by (simp add: d2_def)
  then have "fst (postInsertionFixups e r d2) = None" by simp
  then show ?thesis using fixups_display [of e r d2] conv by simp
qed

theorem completed_conversion_displays_flex_witness:
  "map_option displayStyle (nodeAt (snd (convertSVGtoInline exampleBrowser 1 examplePage)) 2)
     = Some ''flex''"
proof -
  have "fst (convertSVGtoInline exampleBrowser 1 examplePage) = None" by code_simp
  then have "convertSVGtoInline exampleBrowser 1 examplePage
      = (None, snd (convertSVGtoInline exampleBrowser 1 examplePage))"
    by (metis prod.collapse)
  then show ?thesis by (rule completed_conversion_displays_flex [OF example_facts(1-3)])
qed

section \<open>Namespacing touches the root's own sheets only\<close>

text \<open>
  C9. Namespacing writes rules through the text of a style node only, and only for a
  sheet of the page whose owner node is a child of the root. The text of every other
  node is the same after the namespacing as before, whether the run ends with an error
  or not: so the rules of every other style sheet are left as they were.
\<close>

theorem namespacing_rewrites_only_own_sheets:
  assumes "\<forall>sheet \<in> set (styleSheets e d). ownerNode sheet = Some i \<longrightarrow> parentOf d i \<noteq> Some svgInline"
  shows "map_option innerHTML (nodeAt (snd (svgPrependClassIdentifiers e svgInline d)) i)
         = map_option innerHTML (nodeAt d i)"
  unfolding svgPrependClassIdentifiers_def Let_def
  by (rule forEachSheet_frame) (simp_all add: setAttribute_def assms)

text \<open>
  On the example page with the root inserted, the page's own style element (node 5)
  keeps its rule, while the root's style element (node 3) is rewritten.
\<close>

theorem namespacing_rewrites_only_own_sheets_witness:
  "map_option innerHTML (nodeAt (snd (svgPrependClassIdentifiers exampleBrowser 2
       (replaceChild 0 2 1 (onNode 2 optimizeInlineSVG examplePage)))) 5)
     = Some ''.a{display:none}''
   \<and> map_option innerHTML (nodeAt (snd (svgPrependClassIdentifiers exampleBrowser 2
       (replaceChild 0 2 1 (onNode 2 optimizeInlineSVG examplePage)))) 3)
     = Some (''.uid-5-a{fill: red;}'' @ [CHR 0x0A])"
proof -
  define d where "d = replaceChild 0 2 1 (onNode 2 optimizeInlineSVG examplePage)"
  have p: "parentOf d 5 \<noteq> Some 2" unfolding d_def by code_simp
  have before: "map_option innerHTML (nodeAt d 5) = Some ''.a{display:none}''"
    unfolding d_def by code_simp
  have own: "map_option innerHTML (nodeAt (snd (svgPrependClassIdentifiers exampleBrowser 2 d)) 3)
     = Some (''.uid-5-a{fill: red;}'' @ [CHR 0x0A])"
    unfolding d_def by code_simp
  have "map_option innerHTML (nodeAt (snd (svgPrependClassIdentifiers exampleBrowser 2 d)) 5)
      = map_option innerHTML (nodeAt d 5)"
    by (rule namespacing_rewrites_only_own_sheets) (simp add: p)
  then show ?thesis using before own unfolding d_def by simp
qed

section \<open>What the optimisation reads\<close>

text \<open>
  C1, at a failing input. \<open>optimizeInlineSVG\<close> reads \<open>id\<close> from the node it is given, the
  new root, never from the image it replaces. On the example page the placeholder has
  the identifier \<open>logo\<close> and the fetched root has none: after the optimisation step, and
  still at the end of the conversion, the root's \<open>id\<close> attribute is the empty string,
  not \<open>logo\<close>.
\<close>

theorem placeholder_id_not_carried:
  "attributeAt examplePage 1 ''id'' = Some ''logo''
   \<and> attributeAt (onNode 2 optimizeInlineSVG examplePage) 2 ''id'' = Some []
   \<and> attributeAt (snd (convertSVGtoInline exampleBrowser 1 examplePage)) 2 ''id'' = Some []"
  by code_simp

text \<open>
  C2, at a failing input. The class tested with \<open>typeof\<close> is the root's own \<open>className\<close>,
  which is never undefined, so the marker \<open>replaced-svg\<close> is added in every conversion:
  here the placeholder has no class attribute and the root still gets the marker.
\<close>

theorem marker_added_without_placeholder_class:
  "attributeAt examplePage 1 ''class'' = None
   \<and> attributeAt (onNode 2 optimizeInlineSVG examplePage) 2 ''class'' = Some ''replaced-svg img-fluid''"
  by code_simp

section \<open>Resolving the URL\<close>




section \<open>Namespaced class names\<close>

lemma below_ten: "n < 10 \<Longrightarrow> n \<in> {0, 1, 2, 3, 4, 5, 6, 7, 8, 9::nat}"
  by auto

lemma digitValue_digitChar: "n < 10 \<Longrightarrow> digitValue (digitChar n) = n"
  by (drule below_ten) (auto simp add: digitValue_def digitChar_def)

lemma isDigit_digitChar: "n < 10 \<Longrightarrow> isDigit (digitChar n)"
  by (drule below_ten) (auto simp add: isDigit_def digitChar_def)

lemma fromDecimal_decimal: "fromDecimal (decimal n) = n"
proof (induction n rule: decimal.induct)
  case (1 n)
  show ?case
  proof (cases "n < 10")
    case True
    then show ?thesis
      by (simp add: decimal.simps [of n] fromDecimal_def digitValue_digitChar)
  next
    case False
    then have "fromDecimal (decimal (n div 10)) = n div 10" using 1 by simp
    then show ?thesis
      using False
      by (simp add: decimal.simps [of n] fromDecimal_def digitValue_digitChar)
  qed
qed

lemma decimal_inj: "decimal m = decimal n \<Longrightarrow> m = n"
  by (metis fromDecimal_decimal)

lemma decimal_digits: "\<forall>c \<in> set (decimal n). isDigit c"
proof (induction n rule: decimal.induct)
  case (1 n)
  show ?case
  proof (cases "n < 10")
    case True
    then show ?thesis by (simp add: decimal.simps [of n] isDigit_digitChar)
  next
    case False
    then show ?thesis using 1 by (simp add: decimal.simps [of n] isDigit_digitChar)
  qed
qed

lemma not_isDigit_u [simp]: "\<not> isDigit CHR ''u''" "\<not> isDigit CHR ''-''"
  by (simp_all add: isDigit_def)

lemma makeUid_eq: "makeUid t = ''uid-'' @ decimal t"
  by (simp add: makeUid_def)

lemma takeWhile_digits:
  "takeWhile isDigit (decimal t @ CHR ''-'' # rest) = decimal t"
  using decimal_digits [of t] by (simp add: takeWhile_append2)

lemma newElementClass_clock_inj:
  assumes "newElementClass (makeUid t1) c1 = newElementClass (makeUid t2) c2"
  shows "t1 = t2"
proof -
  have "decimal t1 @ CHR ''-'' # c1 = decimal t2 @ CHR ''-'' # c2"
    using assms by (simp add: newElementClass_def makeUid_eq)
  then have "takeWhile isDigit (decimal t1 @ CHR ''-'' # c1)
      = takeWhile isDigit (decimal t2 @ CHR ''-'' # c2)" by simp
  then have "decimal t1 = decimal t2" by (simp only: takeWhile_digits)
  then show ?thesis by (rule decimal_inj)
qed

lemma isDigit_not_space: "isDigit c \<Longrightarrow> \<not> isSpace c"
  by (auto simp add: isDigit_def isSpace_def)

lemma cleanToken_newElementClass:
  "cleanToken old \<Longrightarrow> cleanToken (newElementClass (makeUid t) old)"
  using decimal_digits [of t] isDigit_not_space
  by (auto simp add: cleanToken_def newElementClass_def makeUid_eq isSpace_def)

lemma newElementClass_neq: "newElementClass uid old \<noteq> old"
proof
  assume "newElementClass uid old = old"
  then have "length (newElementClass uid old) = length old" by simp
  then show False by (simp add: newElementClass_def)
qed

lemma set_replaceInSet:
  "set (replaceInSet old new ts)
     = (if old \<in> set ts \<or> new \<in> set ts then insert new (set ts - {old, new}) else set ts)"
  by (induction ts) auto

lemma distinct_replaceInSet: "distinct ts \<Longrightarrow> distinct (replaceInSet old new ts)"
  by (induction ts) (auto simp add: set_replaceInSet)

lemma canonical_replaceInSet:
  "canonical ts \<Longrightarrow> cleanToken new \<Longrightarrow> canonical (replaceInSet old new ts)"
  by (auto simp add: canonical_def distinct_replaceInSet set_replaceInSet split: if_splits)

lemma set_renameTokens:
  "set (renameTokens old new ts)
     = (if old \<in> set ts then insert new (set ts - {old, new}) else set ts)"
  by (simp add: renameTokens_def set_replaceInSet)

lemma classList_replace_clean:
  "cleanToken old \<Longrightarrow> cleanToken new \<Longrightarrow> classList_replace old new n = Inr (renameNode old new n)"
  by (auto simp add: classList_replace_def renameNode_def cleanToken_def)

lemma classList_replace_unclean:
  "\<not> cleanToken old \<Longrightarrow> \<exists>err. classList_replace old new n = Inl err"
  by (auto simp add: classList_replace_def cleanToken_def)

lemma classTokens_renameNode:
  "cleanToken new \<Longrightarrow> classTokens (renameNode old new n) = renameTokens old new (classTokens n)"
  using classTokens_canonical [of n]
  by (simp add: renameNode_def renameTokens_def classTokens_setAttribute_class canonical_replaceInSet)

lemma renameNode_idem:
  assumes "cleanToken new" and "old \<noteq> new"
  shows "renameNode old new (renameNode old new n) = renameNode old new n"
proof -
  have "old \<notin> set (classTokens (renameNode old new n))"
    using assms by (simp add: classTokens_renameNode set_renameTokens)
  then show ?thesis by (simp add: renameNode_def [of old new "renameNode old new n"])
qed

lemma replaceOnElements_clean:
  assumes "cleanToken old" and "cleanToken new" and "old \<noteq> new"
  shows "fst (replaceOnElements old new es d) = None
     \<and> nodeAt (snd (replaceOnElements old new es d)) i
         = (if i \<in> set es then map_option (renameNode old new) (nodeAt d i) else nodeAt d i)"
proof (induction es arbitrary: d)
  case Nil
  show ?case by simp
next
  case (Cons e es)
  show ?case
  proof (cases "nodeAt d e")
    case None
    then show ?thesis using Cons.IH [of d] by auto
  next
    case (Some n)
    define d1 where "d1 = d\<lparr>nodeAt := (nodeAt d)(e \<mapsto> renameNode old new n)\<rparr>"
    have step: "replaceOnElements old new (e # es) d = replaceOnElements old new es d1"
      using Some by (simp add: classList_replace_clean assms d1_def)
    have "nodeAt d1 i = (if i = e then Some (renameNode old new n) else nodeAt d i)"
      by (simp add: d1_def)
    then show ?thesis
      unfolding step using Cons.IH [of d1] Some by (auto simp add: renameNode_idem assms)
  qed
qed

lemma replaceOnElements_unclean:
  assumes "\<not> cleanToken old" and "fst (replaceOnElements old new es d) = None"
  shows "snd (replaceOnElements old new es d) = d"
  using assms(2)
proof (induction es arbitrary: d)
  case Nil
  show ?case by simp
next
  case (Cons e es)
  show ?case
  proof (cases "nodeAt d e")
    case None
    then show ?thesis using Cons by simp
  next
    case (Some n)
    obtain err where "classList_replace old new n = Inl err"
      using classList_replace_unclean [OF assms(1)] by blast
    then show ?thesis using Cons.prems Some by simp
  qed
qed

lemma replaceOnElements_untouched:
  "i \<notin> set es \<Longrightarrow> nodeAt (snd (replaceOnElements old new es d)) i = nodeAt d i"
  by (induction es arbitrary: d) (auto split: option.splits sum.splits)

lemma ancestorWithin_cong:
  "(\<And>j. parentOf d' j = parentOf d j) \<Longrightarrow> ancestorWithin k d' r i = ancestorWithin k d r i"
  by (induction k arbitrary: i) (auto split: option.splits)

lemma elementOf_cong:
  "nodeIds d' = nodeIds d \<Longrightarrow> (\<And>j. parentOf d' j = parentOf d j) \<Longrightarrow>
   elementOf d' r i = elementOf d r i"
  using ancestorWithin_cong [of d' d] by (simp add: elementOf_def isDescendant_def)

lemma sheetClasses_cong:
  "(\<And>j. parentOf d' j = parentOf d j) \<Longrightarrow> sheetClasses d' r sheets = sheetClasses d r sheets"
  by (induction sheets) (auto split: option.splits)

lemma tokenSet_clean: "cleanToken old \<Longrightarrow> tokenSet old = [old]"
  by (simp add: tokenSet_def splitOnSpace_token orderedSet_def)

lemma elements_subset: "i \<in> set (getElementsByClassName d r names) \<Longrightarrow> elementOf d r i"
  by (auto simp add: getElementsByClassName_def Let_def elementOf_def split: if_splits)

lemma elements_clean:
  "cleanToken old \<Longrightarrow>
   (i \<in> set (getElementsByClassName d r old))
     = (elementOf d r i \<and> (\<exists>n. nodeAt d i = Some n \<and> old \<in> set (classTokens n)))"
  by (auto simp add: getElementsByClassName_def Let_def elementOf_def tokenSet_clean
      split: option.splits)

lemma renameTokens_unclean:
  "\<not> cleanToken old \<Longrightarrow> canonical ts \<Longrightarrow> renameTokens old new ts = ts"
  by (auto simp add: renameTokens_def canonical_def)

lemma tokensAt_innerHTML [simp]:
  "tokensAt (onNode sn (\<lambda>n. n\<lparr>innerHTML := h n\<rparr>) d) i = tokensAt d i"
  by (cases "nodeAt d sn") (auto simp add: tokensAt_def nodeAt_onNode classTokens_def reflected_def)

lemma parentOf_innerHTML [simp]:
  "parentOf (onNode sn (\<lambda>n. n\<lparr>innerHTML := h n\<rparr>) d) j = parentOf d j"
  by (cases "nodeAt d sn") (auto simp add: parentOf_def nodeAt_onNode)

lemma parentOf_replaceOnElements [simp]:
  "parentOf (snd (replaceOnElements old new es d)) j = parentOf d j"
  by (rule parentOf_eq, rule replaceOnElements_frame) (simp add: setAttribute_def)

lemma parentOf_rewriteRules [simp]:
  "parentOf (snd (rewriteRules uid r sn rules d)) j = parentOf d j"
  by (rule parentOf_eq, rule rewriteRules_frame) (simp_all add: setAttribute_def)

lemma parentOf_forEachSheet [simp]:
  "parentOf (snd (forEachSheet uid r sheets d)) j = parentOf d j"
  by (rule parentOf_eq, rule forEachSheet_frame) (simp_all add: setAttribute_def)

text \<open>One rule: the elements of the class are renamed, the other nodes keep their tokens.\<close>

lemma ruleStep_tokens:
  assumes cu: "cleanToken old \<Longrightarrow> cleanToken new" and ne: "old \<noteq> new"
    and ok: "fst (replaceOnElements old new (rev (getElementsByClassName d r old))
                 (onNode sn (\<lambda>n. n\<lparr>innerHTML := h n\<rparr>) d)) = None"
  shows "tokensAt (snd (replaceOnElements old new (rev (getElementsByClassName d r old))
                 (onNode sn (\<lambda>n. n\<lparr>innerHTML := h n\<rparr>) d))) i
         = (if elementOf d r i then map_option (renameTokens old new) (tokensAt d i)
            else tokensAt d i)"
proof -
  define d1 where "d1 = onNode sn (\<lambda>n. n\<lparr>innerHTML := h n\<rparr>) d"
  define es where "es = rev (getElementsByClassName d r old)"
  have t1: "tokensAt d1 i = tokensAt d i" by (simp add: d1_def)
  show ?thesis
  proof (cases "cleanToken old")
    case True
    have n2: "nodeAt (snd (replaceOnElements old new es d1)) i
         = (if i \<in> set es then map_option (renameNode old new) (nodeAt d1 i) else nodeAt d1 i)"
      using replaceOnElements_clean [OF True cu [OF True] ne] by simp
    have mem: "(i \<in> set es) = (elementOf d r i \<and> (\<exists>n. nodeAt d i = Some n \<and> old \<in> set (classTokens n)))"
      by (simp add: es_def elements_clean True)
    have ren: "map_option classTokens (map_option (renameNode old new) x)
         = map_option (renameTokens old new) (map_option classTokens x)" for x
      by (cases x) (simp_all add: classTokens_renameNode cu [OF True])
    show ?thesis
    proof (cases "i \<in> set es")
      case True
      then have "tokensAt (snd (replaceOnElements old new es d1)) i
          = map_option (renameTokens old new) (tokensAt d1 i)"
        using n2 by (simp add: tokensAt_def ren)
      then show ?thesis using True mem t1 by (simp add: es_def d1_def)
    next
      case False
      then have a: "tokensAt (snd (replaceOnElements old new es d1)) i = tokensAt d i"
        using n2 t1 by (simp add: tokensAt_def)
      have "map_option (renameTokens old new) (tokensAt d i) = tokensAt d i" if "elementOf d r i"
      proof (cases "nodeAt d i")
        case None
        then show ?thesis by (simp add: tokensAt_def)
      next
        case (Some n)
        then have "old \<notin> set (classTokens n)" using False mem that by simp
        then show ?thesis using Some by (simp add: tokensAt_def renameTokens_def)
      qed
      then show ?thesis using a by (simp add: es_def d1_def)
    qed
  next
    case False
    have "snd (replaceOnElements old new es d1) = d1"
      using False ok by (intro replaceOnElements_unclean) (simp_all add: es_def d1_def)
    moreover have "map_option (renameTokens old new) (tokensAt d i) = tokensAt d i"
      by (cases "nodeAt d i")
         (simp_all add: tokensAt_def renameTokens_unclean [OF False] classTokens_canonical)
    ultimately show ?thesis using t1 by (simp add: es_def d1_def)
  qed
qed

lemma elementOf_ruleStep:
  "elementOf (snd (replaceOnElements old new es (onNode sn (\<lambda>n. n\<lparr>innerHTML := h n\<rparr>) d))) r i
     = elementOf d r i"
  by (rule elementOf_cong) simp_all

lemma namespacedTokens_Cons:
  "namespacedTokens uid (old # olds) ts
     = namespacedTokens uid olds (renameTokens old (newElementClass uid old) ts)"
  by (simp add: namespacedTokens_def)

lemma namespacedTokens_Nil [simp]: "namespacedTokens uid [] ts = ts"
  by (simp add: namespacedTokens_def)

lemma namespacedTokens_append:
  "namespacedTokens uid (xs @ ys) ts = namespacedTokens uid ys (namespacedTokens uid xs ts)"
  by (simp add: namespacedTokens_def)

lemma rewriteRules_tokens:
  assumes cu: "\<And>old. cleanToken old \<Longrightarrow> cleanToken (newElementClass uid old)"
  shows "fst (rewriteRules uid r sn rules d) = None \<Longrightarrow>
         tokensAt (snd (rewriteRules uid r sn rules d)) i
           = (if elementOf d r i
              then map_option (namespacedTokens uid (ruleClasses rules)) (tokensAt d i)
              else tokensAt d i)"
proof (induction rules arbitrary: d)
  case Nil
  show ?case by (cases "tokensAt d i") simp_all
next
  case (Cons rule rules)
  show ?case
  proof (cases rule)
    case CSSOtherRule
    then show ?thesis using Cons.prems by simp
  next
    case (CSSStyleRule sel decls)
    define old where "old = drop 1 sel"
    define new where "new = newElementClass uid old"
    define res where "res = replaceOnElements old new (rev (getElementsByClassName d r old))
        (onNode sn (\<lambda>n. n\<lparr>innerHTML := emitDeclarations new decls (innerHTML n)\<rparr>) d)"
    have step: "rewriteRules uid r sn (rule # rules) d
        = (if fst res = None then rewriteRules uid r sn rules (snd res) else res)"
      by (simp add: CSSStyleRule rewriteRules_step Let_def res_def new_def old_def)
    have ok1: "fst res = None" using Cons.prems step by (cases "fst res") auto
    have ok2: "fst (rewriteRules uid r sn rules (snd res)) = None"
      using Cons.prems step ok1 by simp
    have t1: "tokensAt (snd res) i
        = (if elementOf d r i then map_option (renameTokens old new) (tokensAt d i)
           else tokensAt d i)"
      unfolding res_def
      by (rule ruleStep_tokens) (simp_all add: new_def cu newElementClass_neq [symmetric] ok1 [unfolded res_def new_def])
    have el: "elementOf (snd res) r i = elementOf d r i"
      unfolding res_def by (rule elementOf_ruleStep)
    have "tokensAt (snd (rewriteRules uid r sn rules (snd res))) i
        = (if elementOf d r i
           then map_option (namespacedTokens uid (ruleClasses rules)) (tokensAt (snd res) i)
           else tokensAt (snd res) i)"
      using Cons.IH [OF ok2] el by simp
    moreover have fin: "rewriteRules uid r sn (rule # rules) d = rewriteRules uid r sn rules (snd res)"
      using step ok1 by simp
    moreover have rc: "ruleClasses (rule # rules) = old # ruleClasses rules"
      by (simp add: CSSStyleRule old_def)
    ultimately show ?thesis
      unfolding fin rc namespacedTokens_Cons using t1
      by (cases "tokensAt d i") (simp_all add: new_def)
  qed
qed

lemma elementOf_rewriteRules:
  "elementOf (snd (rewriteRules uid r sn rules d)) r i = elementOf d r i"
  by (rule elementOf_cong) simp_all

lemma elementOf_innerHTML:
  "elementOf (onNode sn (\<lambda>n. n\<lparr>innerHTML := h n\<rparr>) d) r i = elementOf d r i"
  by (rule elementOf_cong) simp_all

lemma forEachSheet_tokens:
  assumes cu: "\<And>old. cleanToken old \<Longrightarrow> cleanToken (newElementClass uid old)"
  shows "fst (forEachSheet uid r sheets d) = None \<Longrightarrow>
         tokensAt (snd (forEachSheet uid r sheets d)) i
           = (if elementOf d r i
              then map_option (namespacedTokens uid (sheetClasses d r sheets)) (tokensAt d i)
              else tokensAt d i)"
proof (induction sheets arbitrary: d)
  case Nil
  show ?case by (cases "tokensAt d i") simp_all
next
  case (Cons sheet sheets)
  show ?case
  proof (cases "ownerNode sheet")
    case None
    then show ?thesis using Cons.prems by (simp add: forEachSheet_step)
  next
    case (Some sn)
    show ?thesis
    proof (cases "parentOf d sn = Some r")
      case False
      then show ?thesis using Some Cons by (simp add: forEachSheet_step)
    next
      case True
      define d1 where "d1 = onNode sn (\<lambda>n. n\<lparr>innerHTML := []\<rparr>) d"
      define res where "res = rewriteRules uid r sn (cssRules sheet) d1"
      have step: "forEachSheet uid r (sheet # sheets) d
          = (if fst res = None then forEachSheet uid r sheets (snd res) else res)"
        using Some True by (simp add: forEachSheet_step Let_def res_def d1_def)
      have ok1: "fst res = None" using Cons.prems step by (cases "fst res") auto
      have ok2: "fst (forEachSheet uid r sheets (snd res)) = None"
        using Cons.prems step ok1 by simp
      have e1: "elementOf d1 r i = elementOf d r i"
        unfolding d1_def by (rule elementOf_innerHTML)
      have el: "elementOf (snd res) r i = elementOf d r i"
        unfolding res_def using e1 by (simp add: elementOf_rewriteRules)
      have t1: "tokensAt (snd res) i
          = (if elementOf d r i
             then map_option (namespacedTokens uid (ruleClasses (cssRules sheet))) (tokensAt d i)
             else tokensAt d i)"
        using rewriteRules_tokens [of uid r sn "cssRules sheet" d1 i, OF cu ok1 [unfolded res_def]] e1
        by (simp add: res_def d1_def)
      have sc: "sheetClasses (snd res) r sheets = sheetClasses d r sheets"
        by (rule sheetClasses_cong) (simp add: res_def d1_def)
      have "tokensAt (snd (forEachSheet uid r sheets (snd res))) i
          = (if elementOf d r i
             then map_option (namespacedTokens uid (sheetClasses d r sheets)) (tokensAt (snd res) i)
             else tokensAt (snd res) i)"
        using Cons.IH [OF ok2] el sc by simp
      moreover have fin: "forEachSheet uid r (sheet # sheets) d = forEachSheet uid r sheets (snd res)"
        using step ok1 by simp
      moreover have rc: "sheetClasses d r (sheet # sheets)
          = ruleClasses (cssRules sheet) @ sheetClasses d r sheets"
        using Some True by simp
      ultimately show ?thesis
        unfolding fin rc namespacedTokens_append using t1
        by (cases "tokensAt d i") simp_all
    qed
  qed
qed

lemma attrs_innerHTML:
  "map_option attributes (nodeAt (onNode sn (\<lambda>n. n\<lparr>innerHTML := h n\<rparr>) d) i)
     = map_option attributes (nodeAt d i)"
  by (cases "nodeAt d sn") (auto simp add: nodeAt_onNode)

lemma rewriteRules_attrs:
  "\<not> elementOf d r i \<Longrightarrow>
   map_option attributes (nodeAt (snd (rewriteRules uid r sn rules d)) i)
     = map_option attributes (nodeAt d i)"
proof (induction rules arbitrary: d)
  case Nil
  show ?case by simp
next
  case (Cons rule rules)
  show ?case
  proof (cases rule)
    case CSSOtherRule
    then show ?thesis by simp
  next
    case (CSSStyleRule sel decls)
    define old where "old = drop 1 sel"
    define new where "new = newElementClass uid old"
    define d1 where "d1 = onNode sn (\<lambda>n. n\<lparr>innerHTML := emitDeclarations new decls (innerHTML n)\<rparr>) d"
    define res where "res = replaceOnElements old new (rev (getElementsByClassName d r old)) d1"
    have step: "rewriteRules uid r sn (rule # rules) d
        = (if fst res = None then rewriteRules uid r sn rules (snd res) else res)"
      by (simp add: CSSStyleRule rewriteRules_step Let_def res_def d1_def new_def old_def)
    have "i \<notin> set (rev (getElementsByClassName d r old))"
      using Cons.prems elements_subset [of i d r old] by auto
    then have "nodeAt (snd res) i = nodeAt d1 i"
      unfolding res_def by (rule replaceOnElements_untouched)
    then have a: "map_option attributes (nodeAt (snd res) i) = map_option attributes (nodeAt d i)"
      by (simp add: d1_def attrs_innerHTML)
    have "elementOf (snd res) r i = elementOf d r i"
      unfolding res_def d1_def by (rule elementOf_ruleStep)
    then have "map_option attributes (nodeAt (snd (rewriteRules uid r sn rules (snd res))) i)
        = map_option attributes (nodeAt (snd res) i)"
      using Cons.IH [of "snd res"] Cons.prems by simp
    then show ?thesis unfolding step using a by simp
  qed
qed

lemma forEachSheet_attrs:
  "\<not> elementOf d r i \<Longrightarrow>
   map_option attributes (nodeAt (snd (forEachSheet uid r sheets d)) i)
     = map_option attributes (nodeAt d i)"
proof (induction sheets arbitrary: d)
  case Nil
  show ?case by simp
next
  case (Cons sheet sheets)
  show ?case
  proof (cases "ownerNode sheet")
    case None
    then show ?thesis by (simp add: forEachSheet_step)
  next
    case (Some sn)
    show ?thesis
    proof (cases "parentOf d sn = Some r")
      case False
      then show ?thesis using Some Cons by (simp add: forEachSheet_step)
    next
      case True
      define d1 where "d1 = onNode sn (\<lambda>n. n\<lparr>innerHTML := []\<rparr>) d"
      define res where "res = rewriteRules uid r sn (cssRules sheet) d1"
      have step: "forEachSheet uid r (sheet # sheets) d
          = (if fst res = None then forEachSheet uid r sheets (snd res) else res)"
        using Some True by (simp add: forEachSheet_step Let_def res_def d1_def)
      have e1: "elementOf d1 r i = elementOf d r i"
        unfolding d1_def by (rule elementOf_innerHTML)
      have el: "elementOf (snd res) r i = elementOf d r i"
        unfolding res_def using e1 by (simp add: elementOf_rewriteRules)
      have "map_option attributes (nodeAt (snd res) i) = map_option attributes (nodeAt d1 i)"
        unfolding res_def using Cons.prems e1 by (intro rewriteRules_attrs) simp
      then have a: "map_option attributes (nodeAt (snd res) i) = map_option attributes (nodeAt d i)"
        by (simp add: d1_def attrs_innerHTML)
      have "map_option attributes (nodeAt (snd (forEachSheet uid r sheets (snd res))) i)
          = map_option attributes (nodeAt (snd res) i)"
        using Cons.IH [of "snd res"] Cons.prems el by simp
      then show ?thesis unfolding step using a by simp
    qed
  qed
qed

lemma namespacedTokens_subset:
  "k \<in> set (namespacedTokens uid olds ts) \<Longrightarrow>
   k \<in> set ts \<or> (\<exists>old \<in> set olds. k = newElementClass uid old)"
proof (induction olds arbitrary: ts)
  case Nil
  then show ?case by simp
next
  case (Cons old olds)
  have "k \<in> set (renameTokens old (newElementClass uid old) ts)
      \<or> (\<exists>old \<in> set olds. k = newElementClass uid old)"
    using Cons.IH [of "renameTokens old (newElementClass uid old) ts"] Cons.prems
    by (simp add: namespacedTokens_Cons)
  then show ?case by (auto simp add: set_renameTokens split: if_splits)
qed

lemma namespacedTokens_keeps:
  assumes plain: "\<forall>old \<in> set olds. \<forall>x. old \<noteq> newElementClass uid x"
    and c: "\<forall>x. c \<noteq> newElementClass uid x"
  shows "newElementClass uid c \<in> set ts \<Longrightarrow> c \<notin> set ts \<Longrightarrow>
         newElementClass uid c \<in> set (namespacedTokens uid olds ts)
         \<and> c \<notin> set (namespacedTokens uid olds ts)"
  using plain
proof (induction olds arbitrary: ts)
  case Nil
  then show ?case by simp
next
  case (Cons old olds)
  define ts' where "ts' = renameTokens old (newElementClass uid old) ts"
  have o: "old \<noteq> newElementClass uid c" using Cons.prems(3) by simp
  have "newElementClass uid c \<in> set ts' \<and> c \<notin> set ts'"
    using Cons.prems(1,2) o c by (auto simp add: ts'_def set_renameTokens)
  then show ?case
    using Cons.IH [of ts'] Cons.prems(3) by (simp add: namespacedTokens_Cons ts'_def)
qed

lemma namespacedTokens_renames:
  assumes plain: "\<forall>old \<in> set olds. \<forall>x. old \<noteq> newElementClass uid x"
  shows "c \<in> set ts \<Longrightarrow> c \<in> set olds \<Longrightarrow>
         newElementClass uid c \<in> set (namespacedTokens uid olds ts)
         \<and> c \<notin> set (namespacedTokens uid olds ts)"
  using plain
proof (induction olds arbitrary: ts)
  case Nil
  then show ?case by simp
next
  case (Cons old olds)
  define ts' where "ts' = renameTokens old (newElementClass uid old) ts"
  have cplain: "\<forall>x. c \<noteq> newElementClass uid x" using Cons.prems(2,3) by auto
  have rest: "\<forall>old \<in> set olds. \<forall>x. old \<noteq> newElementClass uid x" using Cons.prems(3) by simp
  show ?case
  proof (cases "old = c")
    case True
    have "newElementClass uid c \<in> set ts' \<and> c \<notin> set ts'"
      using Cons.prems(1) True newElementClass_neq [of uid c]
      by (auto simp add: ts'_def set_renameTokens)
    then show ?thesis
      using namespacedTokens_keeps [OF rest cplain, of ts']
      by (simp add: namespacedTokens_Cons ts'_def)
  next
    case False
    then have "c \<in> set ts'" "c \<in> set olds"
      using Cons.prems(1,2) cplain by (auto simp add: ts'_def set_renameTokens)
    then show ?thesis
      using Cons.IH [of ts'] rest by (simp add: namespacedTokens_Cons ts'_def)
  qed
qed

text \<open>
  What holds when the clock values differ. The prefix is \<open>uid-\<close> followed by the clock
  value, so two namespacing runs that read different clock values never produce the same
  class name, whatever the original classes. For a run that ends without error and a
  node of the store: every class token the node has afterwards is one it had before or a
  name with this run's prefix; a node that is not an element of the root keeps all its
  attributes; and an element of the root that carried a class \<open>c\<close> selected by a rule of
  the root's own sheets carries the namespaced name instead of \<open>c\<close>, provided no selector
  of those sheets already has this run's prefix.
\<close>

theorem namespaced_classes_differ_when_clocks_differ:
  assumes "dateNow e \<noteq> t'"
    and "svgPrependClassIdentifiers e r d = (None, d')"
    and "nodeAt d i = Some n"
  shows "newElementClass (makeUid (dateNow e)) c \<noteq> newElementClass (makeUid t') c'
     \<and> (\<exists>n'. nodeAt d' i = Some n'
          \<and> (\<forall>k \<in> set (classTokens n'). k \<in> set (classTokens n)
                \<or> (\<exists>old. k = newElementClass (makeUid (dateNow e)) old))
          \<and> (\<not> elementOf d r i \<longrightarrow> attributes n' = attributes n)
          \<and> (elementOf d r i \<and> c \<in> set (classTokens n) \<and> c \<in> set (ownClasses e r d)
                \<and> (\<forall>old \<in> set (ownClasses e r d). \<forall>x. old \<noteq> newElementClass (makeUid (dateNow e)) x)
              \<longrightarrow> newElementClass (makeUid (dateNow e)) c \<in> set (classTokens n')
                  \<and> c \<notin> set (classTokens n')))"
proof -
  define uid where "uid = makeUid (dateNow e)"
  define olds where "olds = ownClasses e r d"
  have run: "forEachSheet uid r (styleSheets e d) d = (None, d')"
    using assms(2) by (simp add: svgPrependClassIdentifiers_def Let_def uid_def)
  have names: "newElementClass uid c \<noteq> newElementClass (makeUid t') c'"
    using assms(1) newElementClass_clock_inj [of "dateNow e" c t' c'] by (auto simp add: uid_def)
  have cu: "cleanToken old \<Longrightarrow> cleanToken (newElementClass uid old)" for old
    unfolding uid_def by (rule cleanToken_newElementClass)
  have toks: "tokensAt d' i
      = (if elementOf d r i then map_option (namespacedTokens uid olds) (tokensAt d i)
         else tokensAt d i)"
    using forEachSheet_tokens [of uid r "styleSheets e d" d i, OF cu] run
    by (simp add: olds_def ownClasses_def)
  obtain n' where n': "nodeAt d' i = Some n'"
    using toks assms(3) by (cases "nodeAt d' i") (auto simp add: tokensAt_def split: if_splits)
  have t: "classTokens n'
      = (if elementOf d r i then namespacedTokens uid olds (classTokens n) else classTokens n)"
    using toks n' assms(3) by (simp add: tokensAt_def split: if_splits)
  have added: "\<forall>k \<in> set (classTokens n'). k \<in> set (classTokens n)
                \<or> (\<exists>old. k = newElementClass uid old)"
    using t namespacedTokens_subset [of _ uid olds "classTokens n"] by (auto split: if_splits)
  have frame: "\<not> elementOf d r i \<longrightarrow> attributes n' = attributes n"
  proof
    assume "\<not> elementOf d r i"
    then have "map_option attributes (nodeAt (snd (forEachSheet uid r (styleSheets e d) d)) i)
        = map_option attributes (nodeAt d i)"
      by (rule forEachSheet_attrs)
    then show "attributes n' = attributes n" using run n' assms(3) by simp
  qed
  have renamed: "elementOf d r i \<and> c \<in> set (classTokens n) \<and> c \<in> set olds
                \<and> (\<forall>old \<in> set olds. \<forall>x. old \<noteq> newElementClass uid x)
              \<longrightarrow> newElementClass uid c \<in> set (classTokens n') \<and> c \<notin> set (classTokens n')"
    using t namespacedTokens_renames [of olds uid c "classTokens n"] by auto
  show ?thesis
    using names n' added frame renamed unfolding uid_def olds_def by blast
qed

theorem namespaced_classes_differ_when_clocks_differ_example:
  "newElementClass (makeUid 5) ''a'' \<noteq> newElementClass (makeUid 6) ''a''
   \<and> (\<exists>n'. nodeAt (snd (svgPrependClassIdentifiers exampleBrowser 2
                (replaceChild 0 2 1 examplePage))) 4 = Some n'
          \<and> ''uid-5-a'' \<in> set (classTokens n') \<and> ''a'' \<notin> set (classTokens n'))
   \<and> attributeAt (snd (convertSVGtoInline (twoGraphicsBrowser 6) 6
        (snd (convertSVGtoInline (twoGraphicsBrowser 5) 1 twoGraphicsPage)))) 4 ''class''
     = Some ''uid-5-a''
   \<and> attributeAt (snd (convertSVGtoInline (twoGraphicsBrowser 6) 6
        (snd (convertSVGtoInline (twoGraphicsBrowser 5) 1 twoGraphicsPage)))) 9 ''class''
     = Some ''uid-6-a''"
proof -
  define d where "d = replaceChild 0 2 1 examplePage"
  define n where "n = svgElement [(''class'', ''a'')] (Some 2) [] []"
  have clock: "dateNow exampleBrowser \<noteq> 6" by (simp add: exampleBrowser_def)
  have now: "dateNow exampleBrowser = 5" by (simp add: exampleBrowser_def)
  have "fst (svgPrependClassIdentifiers exampleBrowser 2 d) = None"
    unfolding d_def by code_simp
  then have run: "svgPrependClassIdentifiers exampleBrowser 2 d
      = (None, snd (svgPrependClassIdentifiers exampleBrowser 2 d))"
    by (metis prod.collapse)
  have node: "nodeAt d 4 = Some n"
    by (simp add: d_def n_def replaceChild_def onNode_def parentOf_def Let_def examplePage_def
        exampleRoot_def exampleBody_def examplePlaceholder_def svgElement_def htmlElement_def)
  have el: "elementOf d 2 4" unfolding d_def by code_simp
  have tok: "''a'' \<in> set (classTokens n)" unfolding n_def by code_simp
  have own: "ownClasses exampleBrowser 2 d = [''a'']" unfolding d_def by code_simp
  have uid: "newElementClass (makeUid 5) x = ''uid-5-'' @ x" for x
    by (simp add: newElementClass_def makeUid_eq decimal.simps [of 5] digitChar_def)
  have plain: "\<forall>old \<in> set (ownClasses exampleBrowser 2 d). \<forall>x. old \<noteq> newElementClass (makeUid 5) x"
    by (simp add: own uid)
  have two: "attributeAt (snd (convertSVGtoInline (twoGraphicsBrowser 6) 6
        (snd (convertSVGtoInline (twoGraphicsBrowser 5) 1 twoGraphicsPage)))) 4 ''class''
     = Some ''uid-5-a''
   \<and> attributeAt (snd (convertSVGtoInline (twoGraphicsBrowser 6) 6
        (snd (convertSVGtoInline (twoGraphicsBrowser 5) 1 twoGraphicsPage)))) 9 ''class''
     = Some ''uid-6-a''"
    by code_simp
  show ?thesis
    using namespaced_classes_differ_when_clocks_differ [OF clock run node, of "''a''" "''a''"]
      el tok own plain two
    unfolding now d_def by (auto simp add: uid)
qed

text \<open>
  C6, at a failing input. Nothing makes the prefix unique but the clock: when the
  namespacing of two conversions reads the same clock value, here 5, the two roots on
  the page get the same class name \<open>uid-5-a\<close>, on their elements and in their style
  rules, and the rule of one graphic applies to the elements of the other.
\<close>

theorem same_clock_same_class:
  "attributeAt (snd (convertSVGtoInline (twoGraphicsBrowser 5) 6
        (snd (convertSVGtoInline (twoGraphicsBrowser 5) 1 twoGraphicsPage)))) 4 ''class''
     = Some ''uid-5-a''
   \<and> attributeAt (snd (convertSVGtoInline (twoGraphicsBrowser 5) 6
        (snd (convertSVGtoInline (twoGraphicsBrowser 5) 1 twoGraphicsPage)))) 9 ''class''
     = Some ''uid-5-a''
   \<and> map_option innerHTML (nodeAt (snd (convertSVGtoInline (twoGraphicsBrowser 5) 6
        (snd (convertSVGtoInline (twoGraphicsBrowser 5) 1 twoGraphicsPage)))) 3)
     = Some (''.uid-5-a{fill: red;}'' @ [CHR 0x0A])
   \<and> map_option innerHTML (nodeAt (snd (convertSVGtoInline (twoGraphicsBrowser 5) 6
        (snd (convertSVGtoInline (twoGraphicsBrowser 5) 1 twoGraphicsPage)))) 8)
     = Some (''.uid-5-a{fill: blue;}'' @ [CHR 0x0A])"
  by code_simp

end
